theory Spec2Isabelle
  imports Complex_Main "HOL-Library.Word"
begin

section \<open>The video assembly script: data model\<close>

text \<open>
  The program is one Python script, \<^verbatim>\<open>assemble/_pixabay/_video.py\<close>. It resolves an
  API key, and then for every entry of \<^verbatim>\<open>SEGMENTS\<close> searches the media API, downloads
  the selected file unless it is already on disk, loads, trims and resizes it, concatenates
  the clips, optionally attaches a mix of \<^verbatim>\<open>music.mp3\<close> and \<^verbatim>\<open>vo.wav\<close>, and
  exports \<^verbatim>\<open>final_video.mp4\<close>.

  The embedding threads an explicit state (the files on disk and the list of HTTP requests
  issued so far) through the script. Every exception is a value of type \<open>error\<close>; a
  function that can raise returns \<open>error + 'a\<close>. What the outside world answers (the
  environment variable, the typed line, the HTTP server, the media decoder and encoder) is
  read from a record \<open>env\<close>. Strings are lists of 8-bit characters, read as code points
  below 256. Directories, console output and the progress bar are not part of the state.
\<close>

type_synonym path = string
type_synonym bytes = "8 word list"

datatype error =
    EOFError
  | RequestException
  | HTTPError nat
  | JSONDecodeError
  | AttributeError
  | KeyError string
  | IndexError
  | TypeError
  | ValueError
  | RuntimeError string
  | MediaError

text \<open>
  \<open>RuntimeError q\<close> is the exception of line 52,
  \<^verbatim>\<open>RuntimeError(f"No Pixabay results for {query!r}")\<close>; it carries the query.
  \<open>MediaError\<close> stands for whatever the editing library raises.
\<close>

subsection \<open>Parsed JSON values\<close>

text \<open>
  The value \<^verbatim>\<open>resp.json()\<close> returns. A dict is the list of its items (a parsed dict
  has every key once).
\<close>

datatype pyval =
    PNone
  | PBool bool
  | PNum rat
  | PStr string
  | PList "pyval list"
  | PDict "(string \<times> pyval) list"

text \<open>Python's truth value, as used by \<^verbatim>\<open>not hits\<close> and by \<^verbatim>\<open>or\<close>.\<close>

fun truthy :: "pyval \<Rightarrow> bool" where
  "truthy PNone = False"
| "truthy (PBool b) = b"
| "truthy (PNum n) = (n \<noteq> 0)"
| "truthy (PStr s) = (s \<noteq> [])"
| "truthy (PList xs) = (xs \<noteq> [])"
| "truthy (PDict kvs) = (kvs \<noteq> [])"

text \<open>\<^verbatim>\<open>x[k]\<close> for a string key \<open>k\<close>.\<close>

fun getitem :: "pyval \<Rightarrow> string \<Rightarrow> error + pyval" where
  "getitem (PDict kvs) k = (case map_of kvs k of None \<Rightarrow> Inl (KeyError k) | Some v \<Rightarrow> Inr v)"
| "getitem _ k = Inl TypeError"

text \<open>
  \<^verbatim>\<open>x[0]\<close>. A list or a string gives its first element, or IndexError when empty; a
  dict parsed from JSON has string keys only, so the integer key 0 is never found.
\<close>

fun getitem0 :: "pyval \<Rightarrow> error + pyval" where
  "getitem0 (PList []) = Inl IndexError"
| "getitem0 (PList (x # xs)) = Inr x"
| "getitem0 (PStr []) = Inl IndexError"
| "getitem0 (PStr (c # cs)) = Inr (PStr [c])"
| "getitem0 (PDict kvs) = Inl (KeyError ''0'')"
| "getitem0 _ = Inl TypeError"

text \<open>\<^verbatim>\<open>data.get(k)\<close>: only a dict has the method.\<close>

fun dict_get :: "pyval \<Rightarrow> string \<Rightarrow> error + pyval" where
  "dict_get (PDict kvs) k = (case map_of kvs k of None \<Rightarrow> Inr PNone | Some v \<Rightarrow> Inr v)"
| "dict_get _ k = Inl AttributeError"

definition bind_err :: "error + 'a \<Rightarrow> ('a \<Rightarrow> error + 'b) \<Rightarrow> error + 'b" where
  "bind_err r f = (case r of Inl e \<Rightarrow> Inl e | Inr x \<Rightarrow> f x)"

subsection \<open>HTTP\<close>

datatype request =
  Get (url: pyval) (params: "(string \<times> pyval) list") (stream: bool) (timeout: nat)

datatype length_header = Absent | Malformed | Length int

text \<open>
  A response as the script reads it: the status code, the body as \<^verbatim>\<open>resp.json()\<close>
  parses it (\<open>None\<close> when it is not JSON), the \<^verbatim>\<open>content-length\<close> header as
  \<^verbatim>\<open>int(...)\<close> reads it, the chunks \<^verbatim>\<open>iter_content(8192)\<close> yields, and whether the
  stream ends normally after them.
\<close>

record response =
  status :: nat
  json :: "pyval option"
  content_length :: length_header
  chunks :: "bytes list"
  stream_ok :: bool

definition raise_for_status :: "response \<Rightarrow> error + unit" where
  "raise_for_status r =
     (if 400 \<le> status r \<and> status r < 600 then Inl (HTTPError (status r)) else Inr ())"

definition resp_json :: "response \<Rightarrow> error + pyval" where
  "resp_json r = (case json r of None \<Rightarrow> Inl JSONDecodeError | Some v \<Rightarrow> Inr v)"

subsection \<open>Clips, audio and the timeline\<close>

text \<open>
  A clip: the file it reads, its frame size, where its timeline starts in the file, how
  long it lasts, its frame rate, and whether it carries the audio of its file
  (\<^verbatim>\<open>clip.audio\<close> is not \<^verbatim>\<open>None\<close>).
\<close>

record clip =
  filename :: path
  w :: nat
  h :: nat
  source_start :: rat
  duration :: rat
  fps :: rat
  with_audio :: bool

datatype resize_arg = Height nat | Width nat

record audio_clip =
  audio_file :: path
  volume :: rat

record composite_audio =
  layers :: "audio_clip list"
  fadeout :: nat

text \<open>
  The audio track of a timeline: the audio of the clips it was concatenated from (those
  that carry one, in order), or a composite attached by \<^verbatim>\<open>set_audio\<close>.
\<close>

datatype audio_track = ClipsAudio "clip list" | Composite composite_audio

text \<open>
  The timeline: the clips given to \<^verbatim>\<open>concatenate_videoclips\<close>, its \<^verbatim>\<open>method\<close>
  argument, and its audio track (\<open>None\<close>: \<^verbatim>\<open>video.audio\<close> is \<^verbatim>\<open>None\<close>, the export
  has no audio track).
\<close>

record video =
  clips :: "clip list"
  concat_method :: string
  audio :: "audio_track option"

record export_settings =
  codec :: string
  audio_codec :: string
  bitrate :: string
  export_fps :: nat
  preset :: string

subsection \<open>State and environment\<close>

record state =
  files :: "path \<rightharpoonup> bytes"
  requests_log :: "request list"

text \<open>
  The outside world. \<open>http_get\<close> answers a request given the requests issued before it
  (\<open>None\<close>: \<^verbatim>\<open>requests.get\<close> itself raises). \<open>open_video\<close> is \<^verbatim>\<open>VideoFileClip\<close>
  on a file's content: it reads width, height, duration, frame rate and whether the file
  has an audio stream (\<open>None\<close>: it raises). \<open>subclip_raises\<close> says whether the library's \<^verbatim>\<open>subclip(t_start, t_end)\<close>
  raises on a clip. \<open>scaled\<close> is the dimension the library derives when the other one is
  fixed: \<open>scaled a b n\<close> for a side of length \<open>a\<close> whose opposite side goes from \<open>b\<close>
  to \<open>n\<close>. \<open>open_audio\<close> says whether \<^verbatim>\<open>AudioFileClip\<close> can open a file's
  content. \<open>encode\<close> is \<^verbatim>\<open>write_videofile\<close>: what it leaves on disk, and whether it
  ends without raising.
\<close>

record env =
  getenv_PIXABAY_KEY :: "string option"
  stdin_line :: "string option"
  http_get :: "request list \<Rightarrow> request \<Rightarrow> response option"
  open_video :: "path \<Rightarrow> bytes \<Rightarrow> (nat \<times> nat \<times> rat \<times> rat \<times> bool) option"
  subclip_raises :: "clip \<Rightarrow> int \<Rightarrow> int \<Rightarrow> bool"
  scaled :: "nat \<Rightarrow> nat \<Rightarrow> nat \<Rightarrow> nat"
  open_audio :: "path \<Rightarrow> bytes \<Rightarrow> bool"
  encode :: "video \<Rightarrow> export_settings \<Rightarrow> bytes option \<times> bool"

section \<open>The script\<close>

subsection \<open>Configuration (lines 25 to 36)\<close>

type_synonym segment = "string \<times> int \<times> string"

definition SEGMENTS :: "segment list" where
  "SEGMENTS =
     [(''sunrise timelapse'', 5, ''sunrise.mp4''),
      (''diverse friends smiling'', 5, ''friends.mp4''),
      (''bible pages turning'', 10, ''bible.mp4''),
      (''family hug reunion'', 10, ''family.mp4''),
      (''people dancing field'', 10, ''dancing.mp4''),
      (''worship church crowd'', 10, ''worship.mp4''),
      (''cross silhouette sunset'', 10, ''cross.mp4'')]"

text \<open>\<^verbatim>\<open>ASSETS / fname\<close> for a relative file name.\<close>

definition ASSETS :: "string \<Rightarrow> path" where
  "ASSETS fname = ''assets/'' @ fname"

subsection \<open>The API key (line 41)\<close>

text \<open>\<^verbatim>\<open>str.isspace\<close> on the code points below 256.\<close>

definition isspace :: "char \<Rightarrow> bool" where
  "isspace c =
     (let n = (of_char c :: nat)
      in (9 \<le> n \<and> n \<le> 13) \<or> (28 \<le> n \<and> n \<le> 32) \<or> n = 133 \<or> n = 160)"

definition strip :: "string \<Rightarrow> string" where
  "strip s = rev (dropWhile isspace (rev (dropWhile isspace s)))"

text \<open>\<^verbatim>\<open>input(...)\<close>: the typed line, or EOFError when standard input is closed.\<close>

definition input_line :: "env \<Rightarrow> error + string" where
  "input_line e = (case stdin_line e of None \<Rightarrow> Inl EOFError | Some l \<Rightarrow> Inr l)"

text \<open>
  \<^verbatim>\<open>os.getenv("PIXABAY_KEY") or input("Enter your Pixabay API key: ").strip()\<close>:
  \<^verbatim>\<open>or\<close> takes its right operand when the left one is \<^verbatim>\<open>None\<close> or the empty string.
\<close>

definition API_KEY :: "env \<Rightarrow> error + string" where
  "API_KEY e =
     (case getenv_PIXABAY_KEY e of
        Some k \<Rightarrow> if k \<noteq> [] then Inr k else bind_err (input_line e) (\<lambda>l. Inr (strip l))
      | None \<Rightarrow> bind_err (input_line e) (\<lambda>l. Inr (strip l)))"

subsection \<open>Search (lines 42 to 54)\<close>

definition BASE :: string where
  "BASE = ''https://pixabay.com/api/videos/''"

definition search_request :: "string \<Rightarrow> string \<Rightarrow> request" where
  "search_request api_key query =
     Get (PStr BASE)
       [(''key'', PStr api_key), (''q'', PStr query),
        (''safesearch'', PStr ''true''), (''per_page'', PNum 3)]
       False 15"

text \<open>
  Lines 50 to 54 on the parsed body. The right operand of \<^verbatim>\<open>or\<close>,
  \<^verbatim>\<open>hits[0]["videos"]["medium"]\<close>, is evaluated only when the left one is falsy.
\<close>

definition select_best :: "string \<Rightarrow> pyval \<Rightarrow> error + pyval" where
  "select_best query data =
     bind_err (dict_get data ''hits'') (\<lambda>hits.
       if \<not> truthy hits then Inl (RuntimeError query)
       else
         bind_err (getitem0 hits) (\<lambda>hit.
         bind_err (getitem hit ''videos'') (\<lambda>videos.
         bind_err (getitem videos ''large'') (\<lambda>large.
         bind_err (if truthy large then Inr large else getitem videos ''medium'') (\<lambda>best.
           getitem best ''url'')))))"

text \<open>\<^verbatim>\<open>requests.get\<close>: the request is recorded, whatever comes of it.\<close>

definition issue :: "request \<Rightarrow> state \<Rightarrow> state" where
  "issue r st = st\<lparr>requests_log := requests_log st @ [r]\<rparr>"

definition requests_get :: "env \<Rightarrow> request \<Rightarrow> state \<Rightarrow> error + response" where
  "requests_get e r st =
     (case http_get e (requests_log st) r of None \<Rightarrow> Inl RequestException | Some resp \<Rightarrow> Inr resp)"

definition px_search_video :: "env \<Rightarrow> string \<Rightarrow> string \<Rightarrow> state \<Rightarrow> state \<times> (error + pyval)" where
  "px_search_video e api_key query st =
     (let req = search_request api_key query
      in (issue req st,
          bind_err (requests_get e req st) (\<lambda>resp.
          bind_err (raise_for_status resp) (\<lambda>_.
          bind_err (resp_json resp) (\<lambda>data.
            select_best query data)))))"

subsection \<open>Download (lines 56 to 66)\<close>

definition download_request :: "pyval \<Rightarrow> request" where
  "download_request u = Get u [] True 60"

text \<open>
  The header is read before the file is opened, so a malformed one raises with nothing
  written. Opening the file for writing creates it; a stream that breaks leaves the chunks
  received.
\<close>

definition download :: "env \<Rightarrow> pyval \<Rightarrow> path \<Rightarrow> state \<Rightarrow> state \<times> (error + unit)" where
  "download e u dst st =
     (if files st dst \<noteq> None then (st, Inr ())
      else
        let req = download_request u; st1 = issue req st
        in case requests_get e req st of
             Inl err \<Rightarrow> (st1, Inl err)
           | Inr r \<Rightarrow>
               (case raise_for_status r of
                  Inl err \<Rightarrow> (st1, Inl err)
                | Inr _ \<Rightarrow>
                    if content_length r = Malformed then (st1, Inl ValueError)
                    else
                      (st1\<lparr>files := (files st1)(dst \<mapsto> concat (chunks r))\<rparr>,
                       if stream_ok r then Inr () else Inl RequestException)))"

subsection \<open>Clip processing (lines 78 to 81)\<close>

text \<open>
  \<^verbatim>\<open>VideoFileClip(str(fp))\<close>: raises when the file is missing or cannot be read. The
  call passes no \<^verbatim>\<open>audio\<close> argument, so the clip carries the audio stream of its file
  when the file has one.
\<close>

definition VideoFileClip :: "env \<Rightarrow> state \<Rightarrow> path \<Rightarrow> error + clip" where
  "VideoFileClip e st fp =
     (case files st fp of
        None \<Rightarrow> Inl MediaError
      | Some content \<Rightarrow>
          (case open_video e fp content of
             None \<Rightarrow> Inl MediaError
           | Some (cw, ch, d, r, a) \<Rightarrow>
               Inr \<lparr>filename = fp, w = cw, h = ch, source_start = 0, duration = d, fps = r,
                    with_audio = a\<rparr>))"

text \<open>
  Modelled from the spec: the editing library's \<^verbatim>\<open>subclip\<close> is not part of the
  repository. Section 4.4: it restricts the timeline to \<open>[t_start, t_end)\<close>, leaving the
  frame size alone. Whether it raises is the environment's \<open>subclip_raises\<close>.
\<close>

definition subclip :: "env \<Rightarrow> clip \<Rightarrow> int \<Rightarrow> int \<Rightarrow> error + clip" where
  "subclip e c t_start t_end =
     (if subclip_raises e c t_start t_end then Inl MediaError
      else
        Inr (c\<lparr>source_start := source_start c + of_int t_start,
               duration := of_int (t_end - t_start)\<rparr>))"

text \<open>
  Modelled from the spec: the editing library's \<^verbatim>\<open>resize\<close> is not part of the
  repository. Section 4.4: \<^verbatim>\<open>resize(height=n)\<close> scales so that the height is \<open>n\<close>,
  \<^verbatim>\<open>resize(width=n)\<close> so that the width is \<open>n\<close>; only one dimension is fixed, the
  other is left to the source's aspect ratio (the environment's \<open>scaled\<close>).
\<close>

fun resize :: "env \<Rightarrow> resize_arg \<Rightarrow> clip \<Rightarrow> clip" where
  "resize e (Height n) c = c\<lparr>w := scaled e (w c) (h c) n, h := n\<rparr>"
| "resize e (Width n) c = c\<lparr>w := n, h := scaled e (h c) (w c) n\<rparr>"

text \<open>
  Modelled from the spec: the editing library's \<^verbatim>\<open>set_fps\<close> is not part of the
  repository. Section 4.4: the frame rate is forced to the given one.
\<close>

definition set_fps :: "nat \<Rightarrow> clip \<Rightarrow> clip" where
  "set_fps n c = c\<lparr>fps := of_nat n\<rparr>"

text \<open>Line 80: which dimension is fixed depends on \<^verbatim>\<open>clip.w < clip.h\<close>.\<close>

definition resize_step :: "env \<Rightarrow> clip \<Rightarrow> clip" where
  "resize_step e c = (if w c < h c then resize e (Height 1920) c else resize e (Width 1080) c)"

definition process_clip :: "env \<Rightarrow> state \<Rightarrow> path \<Rightarrow> int \<Rightarrow> error + clip" where
  "process_clip e st fp dur =
     bind_err (VideoFileClip e st fp) (\<lambda>c0.
     bind_err (subclip e c0 0 dur) (\<lambda>c1.
       Inr (set_fps 30 (resize_step e c1))))"

subsection \<open>The loop over the segments (lines 71 to 81)\<close>

text \<open>One iteration: search, download, load and process.\<close>

definition fetch_segment :: "env \<Rightarrow> string \<Rightarrow> segment \<Rightarrow> state \<Rightarrow> state \<times> (error + clip)" where
  "fetch_segment e api_key seg st =
     (case seg of (query, dur, fname) \<Rightarrow>
        let fp = ASSETS fname
        in case px_search_video e api_key query st of
             (st1, Inl err) \<Rightarrow> (st1, Inl err)
           | (st1, Inr u) \<Rightarrow>
               (case download e u fp st1 of
                  (st2, Inl err) \<Rightarrow> (st2, Inl err)
                | (st2, Inr _) \<Rightarrow> (st2, process_clip e st2 fp dur)))"

text \<open>The loop, with the list \<^verbatim>\<open>clips\<close> built so far; an exception ends it.\<close>

fun fetch_segments ::
  "env \<Rightarrow> string \<Rightarrow> segment list \<Rightarrow> clip list \<Rightarrow> state \<Rightarrow> state \<times> (error + clip list)" where
  "fetch_segments e api_key [] cl st = (st, Inr cl)"
| "fetch_segments e api_key (seg # rest) cl st =
     (case fetch_segment e api_key seg st of
        (st1, Inl err) \<Rightarrow> (st1, Inl err)
      | (st1, Inr c) \<Rightarrow> fetch_segments e api_key rest (cl @ [c]) st1)"

subsection \<open>Concatenation, audio and export (lines 83 to 114)\<close>

text \<open>
  The audio a concatenation has: that of the clips that carry one, none when no clip does.
\<close>

definition clips_audio :: "clip list \<Rightarrow> audio_track option" where
  "clips_audio cl =
     (if filter with_audio cl = [] then None else Some (ClipsAudio (filter with_audio cl)))"

text \<open>
  Modelled from the spec: the editing library's \<^verbatim>\<open>concatenate_videoclips\<close> is not part
  of the repository. Section 4.5: the timeline is the clips in input order. Its audio is
  not taken from the spec: nothing between line 78 and line 83 removes the audio of the
  clips, and the library gives the timeline the audio of the clips it is made of.
\<close>

definition concatenate_videoclips :: "clip list \<Rightarrow> string \<Rightarrow> video" where
  "concatenate_videoclips cl m = \<lparr>clips = cl, concat_method = m, audio = clips_audio cl\<rparr>"

text \<open>
  Lines 89 to 93: when the file exists, \<^verbatim>\<open>AudioFileClip(p).volumex(v)\<close> is appended to
  \<^verbatim>\<open>audios\<close>. Modelled from the spec: the library's audio operations are not part of
  the repository. Section 4.6: a track is its file played at a factor of its amplitude,
  the composite layers its tracks, and the fade-out lasts the given number of seconds.
\<close>

definition add_audio ::
  "env \<Rightarrow> state \<Rightarrow> path \<Rightarrow> rat \<Rightarrow> audio_clip list \<Rightarrow> error + audio_clip list" where
  "add_audio e st p v audios =
     (case files st p of
        None \<Rightarrow> Inr audios
      | Some content \<Rightarrow>
          if open_audio e p content then Inr (audios @ [\<lparr>audio_file = p, volume = v\<rparr>])
          else Inl MediaError)"

text \<open>
  Lines 88 to 100: \<^verbatim>\<open>CompositeAudioClip(audios).audio_fadeout(1)\<close> is attached when
  \<^verbatim>\<open>audios\<close> is not empty, replacing the audio the timeline had; otherwise the timeline
  is left as the concatenation returned it.
\<close>

definition audio_stage :: "env \<Rightarrow> state \<Rightarrow> video \<Rightarrow> error + video" where
  "audio_stage e st v =
     bind_err (add_audio e st ''music.mp3'' (1 / 4) []) (\<lambda>a1.
     bind_err (add_audio e st ''vo.wav'' 1 a1) (\<lambda>audios.
       Inr (if audios \<noteq> []
            then v\<lparr>audio := Some (Composite \<lparr>layers = audios, fadeout = 1\<rparr>)\<rparr>
            else v)))"

definition settings :: export_settings where
  "settings =
     \<lparr>codec = ''libx264'', audio_codec = ''aac'', bitrate = ''2e7'',
      export_fps = 30, preset = ''medium''\<rparr>"

definition write_videofile :: "env \<Rightarrow> video \<Rightarrow> path \<Rightarrow> state \<Rightarrow> state \<times> (error + unit)" where
  "write_videofile e v out st =
     (case encode e v settings of
        (written, ok) \<Rightarrow>
          (st\<lparr>files := (case written of None \<Rightarrow> files st | Some b \<Rightarrow> (files st)(out \<mapsto> b))\<rparr>,
           if ok then Inr () else Inl MediaError))"

subsection \<open>The whole run\<close>

text \<open>The script from line 41 on, for a list of segments; it returns the exported timeline.\<close>

definition run :: "env \<Rightarrow> segment list \<Rightarrow> state \<Rightarrow> state \<times> (error + video)" where
  "run e segs st =
     (case API_KEY e of
        Inl err \<Rightarrow> (st, Inl err)
      | Inr api_key \<Rightarrow>
          (case fetch_segments e api_key segs [] st of
             (st1, Inl err) \<Rightarrow> (st1, Inl err)
           | (st1, Inr cl) \<Rightarrow>
               (case audio_stage e st1 (concatenate_videoclips cl ''compose'') of
                  Inl err \<Rightarrow> (st1, Inl err)
                | Inr v \<Rightarrow>
                    (case write_videofile e v ''final_video.mp4'' st1 of
                       (st2, Inl err) \<Rightarrow> (st2, Inl err)
                     | (st2, Inr _) \<Rightarrow> (st2, Inr v)))))"

definition main :: "env \<Rightarrow> state \<Rightarrow> state \<times> (error + video)" where
  "main e st = run e SEGMENTS st"

section \<open>Notions used in the statements\<close>

text \<open>The file a segment is stored in, and the search request made for it.\<close>

definition asset_path :: "segment \<Rightarrow> path" where
  "asset_path seg = (case seg of (query, dur, fname) \<Rightarrow> ASSETS fname)"

definition search_of :: "string \<Rightarrow> segment \<Rightarrow> request" where
  "search_of api_key seg = (case seg of (query, dur, fname) \<Rightarrow> search_request api_key query)"

text \<open>The processed clip of a segment, read from the disk of a state.\<close>

definition processed :: "env \<Rightarrow> state \<Rightarrow> segment \<Rightarrow> error + clip" where
  "processed e st seg = (case seg of (query, dur, fname) \<Rightarrow> process_clip e st (ASSETS fname) dur)"

text \<open>
  The composite lines 88 to 100 attach, given which of the two files exist: the music at
  a quarter of its volume, then the voice-over unchanged, with a fade-out of one second;
  nothing is attached when neither file exists.
\<close>

definition expected_audio :: "bool \<Rightarrow> bool \<Rightarrow> composite_audio option" where
  "expected_audio music vo =
     (if \<not> music \<and> \<not> vo then None
      else Some \<lparr>layers =
                   (if music then [\<lparr>audio_file = ''music.mp3'', volume = 1 / 4\<rparr>] else []) @
                   (if vo then [\<lparr>audio_file = ''vo.wav'', volume = 1\<rparr>] else []),
                 fadeout = 1\<rparr>)"

section \<open>Concrete inputs\<close>

text \<open>
  Small responses, an environment and a disk on which the script can be evaluated. The
  environment answers every search with the given body and every download with a
  three-byte file; every file decodes to a 1280 by 720 clip with an audio stream.
\<close>

definition json_response :: "pyval \<Rightarrow> response" where
  "json_response body =
     \<lparr>status = 200, json = Some body, content_length = Absent, chunks = [], stream_ok = True\<rparr>"

definition file_response :: response where
  "file_response =
     \<lparr>status = 200, json = None, content_length = Length 3, chunks = [[1, 2], [3]],
      stream_ok = True\<rparr>"

definition rendition :: "string \<Rightarrow> pyval" where
  "rendition u = PDict [(''url'', PStr u)]"

definition body_of_videos :: "(string \<times> pyval) list \<Rightarrow> pyval" where
  "body_of_videos vs = PDict [(''hits'', PList [PDict [(''videos'', PDict vs)]])]"

definition sample_env :: "pyval \<Rightarrow> env" where
  "sample_env body =
     \<lparr>getenv_PIXABAY_KEY = Some ''secret'',
      stdin_line = None,
      http_get = (\<lambda>issued r. if stream r then Some file_response else Some (json_response body)),
      open_video = (\<lambda>p b. Some (1280, 720, 12, 25, True)),
      subclip_raises = (\<lambda>c a b. False),
      scaled = (\<lambda>a b n. a * n div b),
      open_audio = (\<lambda>p b. True),
      encode = (\<lambda>v s. (Some [], True))\<rparr>"

definition empty_disk :: state where
  "empty_disk = \<lparr>files = Map.empty, requests_log = []\<rparr>"

text \<open>The same environment with every file decoding to a 720 by 1280 clip.\<close>

definition portrait_env :: "pyval \<Rightarrow> env" where
  "portrait_env body =
     (sample_env body)\<lparr>open_video := (\<lambda>p b. Some (720, 1280, 12, 25, True))\<rparr>"

text \<open>The same environment with every file decoding to a clip without an audio stream.\<close>

definition silent_env :: "pyval \<Rightarrow> env" where
  "silent_env body =
     (sample_env body)\<lparr>open_video := (\<lambda>p b. Some (1280, 720, 12, 25, False))\<rparr>"

text \<open>A disk holding one-byte files at the given paths, with no request issued yet.\<close>

definition disk_with :: "path list \<Rightarrow> state" where
  "disk_with ps = \<lparr>files = map_of (map (\<lambda>p. (p, [7])) ps), requests_log = []\<rparr>"

text \<open>A response with one hit that has both renditions, and the first two segments.\<close>

definition good_body :: pyval where
  "good_body =
     body_of_videos [(''large'', rendition ''https://cdn/large.mp4''),
                     (''medium'', rendition ''https://cdn/medium.mp4'')]"

definition two_segments :: "segment list" where
  "two_segments =
     [(''sunrise timelapse'', 5, ''sunrise.mp4''), (''diverse friends smiling'', 5, ''friends.mp4'')]"

section \<open>Basic facts\<close>

lemma bind_err_Inr_iff: "bind_err r f = Inr y \<longleftrightarrow> (\<exists>x. r = Inr x \<and> f x = Inr y)"
  by (cases r) (auto simp: bind_err_def)

lemma bind_err_simps [simp]: "bind_err (Inl err) f = Inl err" "bind_err (Inr x) f = f x"
  by (simp_all add: bind_err_def)

lemma if_Inl_eq_Inr: "((if c then Inl err else r) = Inr y) = (\<not> c \<and> r = Inr y)"
  by simp

subsection \<open>Trimming\<close>

lemma rev_drop_take: "xs = rev (dropWhile P (rev xs)) @ rev (takeWhile P (rev xs))"
proof -
  have "rev (rev xs) = rev (takeWhile P (rev xs) @ dropWhile P (rev xs))" by simp
  then show ?thesis by (simp only: rev_append rev_rev_ident)
qed

lemma strip_middle:
  "dropWhile isspace l = strip l @ rev (takeWhile isspace (rev (dropWhile isspace l)))"
  unfolding strip_def by (rule rev_drop_take)

lemma strip_decomp:
  "\<exists>pre suf. l = pre @ strip l @ suf \<and> (\<forall>c \<in> set pre. isspace c) \<and> (\<forall>c \<in> set suf. isspace c)"
proof -
  let ?a = "takeWhile isspace l"
  let ?b = "rev (takeWhile isspace (rev (dropWhile isspace l)))"
  have "l = ?a @ dropWhile isspace l" by simp
  with strip_middle [of l] have "l = ?a @ strip l @ ?b" by simp
  moreover have "\<forall>c \<in> set ?a. isspace c" by (meson set_takeWhileD)
  moreover have "\<forall>c \<in> set ?b. isspace c" by (metis set_rev set_takeWhileD)
  ultimately show ?thesis by blast
qed

lemma strip_ends:
  assumes ne: "strip l \<noteq> []"
  shows "\<not> isspace (hd (strip l)) \<and> \<not> isspace (last (strip l))"
proof -
  let ?m = "dropWhile isspace l"
  let ?r = "dropWhile isspace (rev ?m)"
  have s: "strip l = rev ?r" by (simp add: strip_def)
  from ne s have rne: "?r \<noteq> []" by simp
  then have "\<not> isspace (hd ?r)" by (rule hd_dropWhile)
  then have l: "\<not> isspace (last (strip l))" using s rne by (simp add: last_rev)
  from strip_middle [of l] ne have mne: "?m \<noteq> []" by (metis append_is_Nil_conv)
  then have hm: "\<not> isspace (hd ?m)" by (rule hd_dropWhile)
  from strip_middle [of l] ne have "hd ?m = hd (strip l)" by (metis hd_append2)
  with hm l show ?thesis by simp
qed

section \<open>The API key\<close>

text \<open>
  Claim C8, as stated: the credential resolver always yields a non-empty key. It does not:
  with the variable unset and a blank line typed, the key is the empty string.
\<close>

theorem API_KEY_blank_line:
  "API_KEY (sample_env PNone\<lparr>getenv_PIXABAY_KEY := None, stdin_line := Some ''   ''\<rparr>) = Inr []"
  by (simp add: API_KEY_def input_line_def sample_env_def strip_def isspace_def)

text \<open>
  Claim C8, amended: when the environment variable is set and not empty, the key is its
  value; when it is unset or empty and a line is typed, the key is that line without its
  leading and trailing whitespace, which may be empty.
\<close>

theorem API_KEY_resolution:
  "(\<forall>k. getenv_PIXABAY_KEY e = Some k \<and> k \<noteq> [] \<longrightarrow> API_KEY e = Inr k) \<and>
   (\<forall>l. (getenv_PIXABAY_KEY e = None \<or> getenv_PIXABAY_KEY e = Some []) \<and> stdin_line e = Some l \<longrightarrow>
      API_KEY e = Inr (strip l) \<and>
      (\<exists>pre suf. l = pre @ strip l @ suf \<and> (\<forall>c \<in> set pre. isspace c) \<and> (\<forall>c \<in> set suf. isspace c)) \<and>
      (strip l \<noteq> [] \<longrightarrow> \<not> isspace (hd (strip l)) \<and> \<not> isspace (last (strip l))))"
  using strip_decomp strip_ends
  by (auto simp: API_KEY_def input_line_def)

theorem API_KEY_resolution_witness:
  "API_KEY (sample_env PNone) = Inr ''secret'' \<and>
   API_KEY (sample_env PNone\<lparr>getenv_PIXABAY_KEY := Some [], stdin_line := Some '' key ''\<rparr>) = Inr ''key''"
  using API_KEY_resolution [of "sample_env PNone"]
    API_KEY_resolution [of "sample_env PNone\<lparr>getenv_PIXABAY_KEY := Some [], stdin_line := Some '' key ''\<rparr>"]
  by (simp add: sample_env_def strip_def isspace_def)

section \<open>Resizing\<close>

lemma process_clip_Inr:
  assumes "process_clip e st fp dur = Inr c"
  shows "\<exists>c0. VideoFileClip e st fp = Inr c0 \<and> \<not> subclip_raises e c0 0 dur \<and>
           c = set_fps 30 (resize_step e (c0\<lparr>source_start := source_start c0, duration := of_int dur\<rparr>))"
  using assms
  by (auto simp: process_clip_def subclip_def bind_err_Inr_iff split: if_splits)

text \<open>
  Claim C2: a clip that was loaded and processed has height exactly 1920 when the source
  width is strictly less than the source height, and width exactly 1080 otherwise. The
  library's \<^verbatim>\<open>resize\<close> is modelled from the spec; the choice between the two calls is
  line 80 of the script.
\<close>

theorem resize_policy:
  "process_clip e st fp dur = Inr c \<longrightarrow>
     (\<exists>c0. VideoFileClip e st fp = Inr c0 \<and>
        (w c0 < h c0 \<longrightarrow> h c = 1920) \<and> (h c0 \<le> w c0 \<longrightarrow> w c = 1080))"
proof
  assume "process_clip e st fp dur = Inr c"
  then obtain c0 where c0: "VideoFileClip e st fp = Inr c0"
    and c: "c = set_fps 30 (resize_step e (c0\<lparr>source_start := source_start c0, duration := of_int dur\<rparr>))"
    using process_clip_Inr by blast
  have "w c0 < h c0 \<longrightarrow> h c = 1920" by (simp add: c set_fps_def resize_step_def)
  moreover have "h c0 \<le> w c0 \<longrightarrow> w c = 1080" by (auto simp add: c set_fps_def resize_step_def)
  ultimately show "\<exists>c0. VideoFileClip e st fp = Inr c0 \<and>
        (w c0 < h c0 \<longrightarrow> h c = 1920) \<and> (h c0 \<le> w c0 \<longrightarrow> w c = 1080)"
    using c0 by blast
qed

theorem resize_policy_witness:
  "process_clip (sample_env PNone) (disk_with [''assets/sunrise.mp4'']) ''assets/sunrise.mp4'' 5 =
     Inr \<lparr>filename = ''assets/sunrise.mp4'', w = 1080, h = 607, source_start = 0, duration = 5, fps = 30,
       with_audio = True\<rparr> \<and>
   process_clip (portrait_env PNone) (disk_with [''assets/sunrise.mp4'']) ''assets/sunrise.mp4'' 5 =
     Inr \<lparr>filename = ''assets/sunrise.mp4'', w = 1080, h = 1920, source_start = 0, duration = 5, fps = 30,
       with_audio = True\<rparr>"
proof -
  let ?st = "disk_with [''assets/sunrise.mp4'']" and ?p = "''assets/sunrise.mp4''"
  let ?a = "\<lparr>filename = ?p, w = 1080, h = 607, source_start = 0, duration = 5, fps = 30,
       with_audio = True\<rparr>"
  let ?b = "\<lparr>filename = ?p, w = 1080, h = 1920, source_start = 0, duration = 5, fps = 30,
       with_audio = True\<rparr>"
  have a: "process_clip (sample_env PNone) ?st ?p 5 = Inr ?a"
    by (simp add: process_clip_def VideoFileClip_def subclip_def resize_step_def set_fps_def
        sample_env_def disk_with_def)
  have b: "process_clip (portrait_env PNone) ?st ?p 5 = Inr ?b"
    by (simp add: process_clip_def VideoFileClip_def subclip_def resize_step_def set_fps_def
        sample_env_def portrait_env_def disk_with_def)
  from resize_policy [of "sample_env PNone" ?st ?p 5 ?a]
    resize_policy [of "portrait_env PNone" ?st ?p 5 ?b] a b
  show ?thesis by simp
qed

section \<open>Search\<close>

lemma px_search_video_state:
  "fst (px_search_video e k q st) = issue (search_request k q) st"
  by (simp add: px_search_video_def Let_def)

lemma px_search_video_result:
  assumes "http_get e (requests_log st) (search_request k q) = Some r"
    and "raise_for_status r = Inr ()" and "json r = Some data"
  shows "snd (px_search_video e k q st) = select_best q data"
  using assms by (simp add: px_search_video_def Let_def resp_json_def requests_get_def)

lemma px_search_video_Inr:
  assumes "snd (px_search_video e k q st) = Inr u"
  shows "\<exists>r data. http_get e (requests_log st) (search_request k q) = Some r \<and>
           raise_for_status r = Inr () \<and> json r = Some data \<and> select_best q data = Inr u"
  using assms
  by (auto simp: px_search_video_def Let_def resp_json_def requests_get_def bind_err_Inr_iff
      split: option.splits)

lemma px_search_video_Inl:
  assumes "snd (px_search_video e k q st) = Inl (RuntimeError q')"
  shows "\<exists>r data. http_get e (requests_log st) (search_request k q) = Some r \<and>
           raise_for_status r = Inr () \<and> json r = Some data \<and> select_best q data = Inl (RuntimeError q')"
  using assms
  by (auto simp: px_search_video_def Let_def resp_json_def raise_for_status_def bind_err_def
      requests_get_def split: option.splits sum.splits if_splits)

lemma getitem_not_RuntimeError: "getitem v k \<noteq> Inl (RuntimeError q)"
  by (cases v) (auto split: option.splits)

lemma getitem0_not_RuntimeError: "getitem0 v \<noteq> Inl (RuntimeError q)"
  by (cases "(v)" rule: getitem0.cases) auto

lemma select_best_RuntimeError:
  "select_best q data = Inl (RuntimeError q') \<longleftrightarrow>
     q' = q \<and> (\<exists>d. data = PDict d \<and> (case map_of d ''hits'' of None \<Rightarrow> True | Some hv \<Rightarrow> \<not> truthy hv))"
proof (cases data)
  case (PDict d)
  show ?thesis
  proof (cases "map_of d ''hits''")
    case None
    with PDict show ?thesis by (auto simp: select_best_def)
  next
    case (Some hv)
    show ?thesis
    proof (cases "truthy hv")
      case False
      with PDict Some show ?thesis by (auto simp: select_best_def)
    next
      case True
      have "select_best q data \<noteq> Inl (RuntimeError q')"
        using PDict Some True getitem_not_RuntimeError getitem0_not_RuntimeError
        by (auto simp: select_best_def bind_err_def split: sum.splits)
      with PDict Some True show ?thesis by simp
    qed
  qed
qed (simp_all add: select_best_def)

lemma select_best_hit:
  assumes "map_of d ''hits'' = Some (PList (hit # others))"
    and "getitem hit ''videos'' = Inr videos"
    and "getitem videos ''large'' = Inr large"
  shows "select_best q (PDict d) =
           bind_err (if truthy large then Inr large else getitem videos ''medium'')
             (\<lambda>best. getitem best ''url'')"
  using assms by (simp add: select_best_def)

lemma select_best_no_large:
  assumes "map_of d ''hits'' = Some (PList (hit # others))"
    and "getitem hit ''videos'' = Inr (PDict vs)"
    and "map_of vs ''large'' = None"
  shows "select_best q (PDict d) = Inl (KeyError ''large'')"
  using assms by (simp add: select_best_def)

lemma getitem_Inr: "getitem v k = Inr x \<longleftrightarrow> (\<exists>kvs. v = PDict kvs \<and> map_of kvs k = Some x)"
  by (cases v) (auto split: option.splits)

lemma getitem0_Inr_dict:
  "getitem0 v = Inr (PDict hitd) \<longleftrightarrow> (\<exists>others. v = PList (PDict hitd # others))"
  by (cases "(v)" rule: getitem0.cases) auto

lemma dict_get_Inr:
  "dict_get v k = Inr x \<longleftrightarrow>
     (\<exists>kvs. v = PDict kvs \<and> (case map_of kvs k of None \<Rightarrow> x = PNone | Some y \<Rightarrow> x = y))"
  by (cases v) (auto split: option.splits)

lemma select_best_Inr:
  assumes "select_best q data = Inr u"
  shows "\<exists>d hitd others vs large.
           data = PDict d \<and> map_of d ''hits'' = Some (PList (PDict hitd # others)) \<and>
           map_of hitd ''videos'' = Some (PDict vs) \<and> map_of vs ''large'' = Some large \<and>
           ((\<exists>lg. large = PDict lg \<and> map_of lg ''url'' = Some u) \<or>
            (\<exists>md. map_of vs ''medium'' = Some (PDict md) \<and> map_of md ''url'' = Some u))"
proof -
  from assms have "\<exists>hits hit videos large best.
      dict_get data ''hits'' = Inr hits \<and> truthy hits \<and> getitem0 hits = Inr hit \<and>
      getitem hit ''videos'' = Inr videos \<and> getitem videos ''large'' = Inr large \<and>
      (if truthy large then Inr large else getitem videos ''medium'') = Inr best \<and>
      getitem best ''url'' = Inr u"
    by (simp add: select_best_def bind_err_Inr_iff if_Inl_eq_Inr)
  then obtain hits hit videos large best where
    a: "dict_get data ''hits'' = Inr hits" and t: "truthy hits"
    and b: "getitem0 hits = Inr hit" and c: "getitem hit ''videos'' = Inr videos"
    and d: "getitem videos ''large'' = Inr large"
    and e: "(if truthy large then Inr large else getitem videos ''medium'') = Inr best"
    and f: "getitem best ''url'' = Inr u"
    by blast
  from c obtain hitd where hit: "hit = PDict hitd" and hv: "map_of hitd ''videos'' = Some videos"
    by (auto simp: getitem_Inr)
  from d obtain vs where videos: "videos = PDict vs" and lv: "map_of vs ''large'' = Some large"
    by (auto simp: getitem_Inr)
  from b hit obtain others where hits: "hits = PList (PDict hitd # others)"
    by (auto simp: getitem0_Inr_dict)
  from a hits obtain dd where data: "data = PDict dd"
    and dh: "map_of dd ''hits'' = Some (PList (PDict hitd # others))"
    by (auto simp: dict_get_Inr split: option.splits)
  from f obtain bd where best: "best = PDict bd" and bu: "map_of bd ''url'' = Some u"
    by (auto simp: getitem_Inr)
  have "(\<exists>lg. large = PDict lg \<and> map_of lg ''url'' = Some u) \<or>
        (\<exists>md. map_of vs ''medium'' = Some (PDict md) \<and> map_of md ''url'' = Some u)"
  proof (cases "truthy large")
    case True
    with e best bu show ?thesis by simp
  next
    case False
    with e videos have "getitem (PDict vs) ''medium'' = Inr best" by simp
    then have "map_of vs ''medium'' = Some best" by (simp split: option.splits)
    with best bu show ?thesis by simp
  qed
  with data dh hv videos lv show ?thesis by blast
qed

text \<open>
  Claim px_search_video_selection, as stated: for every response with at least one hit the function returns the
  URL of the first hit's large rendition, or of its medium rendition when the large one is
  unavailable. It does not when the first hit has no \<^verbatim>\<open>"large"\<close> entry: the medium
  rendition is there, and the function raises KeyError.
\<close>

theorem px_search_video_missing_large:
  "snd (px_search_video
          (sample_env (body_of_videos [(''medium'', rendition ''https://cdn/medium.mp4'')]))
          ''secret'' ''sunrise timelapse'' empty_disk)
     = Inl (KeyError ''large'')"
  by (simp add: px_search_video_def requests_get_def sample_env_def search_request_def
      json_response_def raise_for_status_def resp_json_def select_best_def body_of_videos_def
      rendition_def empty_disk_def Let_def)

text \<open>
  Claim px_search_video_selection, amended: when the search succeeds with a JSON object whose \<^verbatim>\<open>"hits"\<close> is a
  non-empty list, and the first hit is an object whose \<^verbatim>\<open>"videos"\<close> object has a
  \<^verbatim>\<open>"large"\<close> entry, then: if that entry is a non-empty object with a \<^verbatim>\<open>"url"\<close>, the
  function returns that URL; if that entry is null (or any other falsy value) and
  \<^verbatim>\<open>"medium"\<close> is an object with a \<^verbatim>\<open>"url"\<close>, the function returns the medium URL.
\<close>

theorem px_search_video_selection:
  assumes "http_get e (requests_log st) (search_request k q) = Some r"
    and "raise_for_status r = Inr ()"
    and "json r = Some (PDict d)"
    and "map_of d ''hits'' = Some (PList (PDict hitd # others))"
    and "map_of hitd ''videos'' = Some (PDict vs)"
    and "map_of vs ''large'' = Some large"
  shows "(\<forall>lg u. large = PDict lg \<and> lg \<noteq> [] \<and> map_of lg ''url'' = Some u \<longrightarrow>
            snd (px_search_video e k q st) = Inr u) \<and>
         (\<forall>md u. \<not> truthy large \<and> map_of vs ''medium'' = Some (PDict md) \<and> map_of md ''url'' = Some u \<longrightarrow>
            snd (px_search_video e k q st) = Inr u)"
proof -
  have "snd (px_search_video e k q st) = select_best q (PDict d)"
    using assms(1-3) by (rule px_search_video_result)
  also have "\<dots> = bind_err (if truthy large then Inr large else getitem (PDict vs) ''medium'')
             (\<lambda>best. getitem best ''url'')"
    using assms(4-6) by (intro select_best_hit [where hit = "PDict hitd"]) simp_all
  finally show ?thesis by auto
qed

theorem px_search_video_selection_witness:
  "snd (px_search_video
          (sample_env (body_of_videos [(''large'', rendition ''https://cdn/large.mp4''),
                                       (''medium'', rendition ''https://cdn/medium.mp4'')]))
          ''secret'' ''sunrise timelapse'' empty_disk) = Inr (PStr ''https://cdn/large.mp4'') \<and>
   snd (px_search_video
          (sample_env (body_of_videos [(''large'', PNone),
                                       (''medium'', rendition ''https://cdn/medium.mp4'')]))
          ''secret'' ''sunrise timelapse'' empty_disk) = Inr (PStr ''https://cdn/medium.mp4'')"
proof -
  let ?vs1 = "[(''large'', rendition ''https://cdn/large.mp4''),
               (''medium'', rendition ''https://cdn/medium.mp4'')]"
  let ?vs2 = "[(''large'', PNone), (''medium'', rendition ''https://cdn/medium.mp4'')]"
  have 1: "snd (px_search_video (sample_env (body_of_videos ?vs1)) ''secret''
             ''sunrise timelapse'' empty_disk) = Inr (PStr ''https://cdn/large.mp4'')"
    using px_search_video_selection [of "sample_env (body_of_videos ?vs1)" empty_disk "''secret''" "''sunrise timelapse''"
        "json_response (body_of_videos ?vs1)" "[(''hits'', PList [PDict [(''videos'', PDict ?vs1)]])]"
        "[(''videos'', PDict ?vs1)]" "[]" ?vs1 "rendition ''https://cdn/large.mp4''"]
    by (simp add: sample_env_def search_request_def json_response_def raise_for_status_def
        body_of_videos_def rendition_def)
  have 2: "snd (px_search_video (sample_env (body_of_videos ?vs2)) ''secret''
             ''sunrise timelapse'' empty_disk) = Inr (PStr ''https://cdn/medium.mp4'')"
    using px_search_video_selection [of "sample_env (body_of_videos ?vs2)" empty_disk "''secret''" "''sunrise timelapse''"
        "json_response (body_of_videos ?vs2)" "[(''hits'', PList [PDict [(''videos'', PDict ?vs2)]])]"
        "[(''videos'', PDict ?vs2)]" "[]" ?vs2 PNone]
    by (simp add: sample_env_def search_request_def json_response_def raise_for_status_def
        body_of_videos_def rendition_def)
  from 1 2 show ?thesis by simp
qed

lemma select_best_both_null:
  assumes "map_of d ''hits'' = Some (PList (hit # others))"
    and "getitem hit ''videos'' = Inr (PDict vs)"
    and "map_of vs ''large'' = Some PNone" and "map_of vs ''medium'' = Some PNone"
  shows "select_best q (PDict d) = Inl TypeError"
  using assms by (simp add: select_best_def)

text \<open>
  Claim px_search_video_partial: on a response whose first hit is an object with a \<^verbatim>\<open>"videos"\<close> object,
  the function raises KeyError when that object has no \<^verbatim>\<open>"large"\<close> entry, and TypeError
  when both \<^verbatim>\<open>"large"\<close> and \<^verbatim>\<open>"medium"\<close> are null; neither is the error of line 52.
  It returns a value only when \<^verbatim>\<open>"large"\<close> is present and one of \<^verbatim>\<open>"large"\<close> and
  \<^verbatim>\<open>"medium"\<close> is an object holding that value under \<^verbatim>\<open>"url"\<close>.
\<close>

theorem px_search_video_partial:
  "(http_get e (requests_log st) (search_request k q) = Some r \<and> raise_for_status r = Inr () \<and>
    json r = Some (PDict d) \<and> map_of d ''hits'' = Some (PList (PDict hitd # others)) \<and>
    map_of hitd ''videos'' = Some (PDict vs) \<longrightarrow>
      (map_of vs ''large'' = None \<longrightarrow>
         snd (px_search_video e k q st) = Inl (KeyError ''large'')) \<and>
      (map_of vs ''large'' = Some PNone \<and> map_of vs ''medium'' = Some PNone \<longrightarrow>
         snd (px_search_video e k q st) = Inl TypeError)) \<and>
   (snd (px_search_video e k q st) = Inr u \<longrightarrow>
      (\<exists>r' d' hitd' others' vs' large.
         http_get e (requests_log st) (search_request k q) = Some r' \<and> json r' = Some (PDict d') \<and>
         map_of d' ''hits'' = Some (PList (PDict hitd' # others')) \<and>
         map_of hitd' ''videos'' = Some (PDict vs') \<and> map_of vs' ''large'' = Some large \<and>
         ((\<exists>lg. large = PDict lg \<and> map_of lg ''url'' = Some u) \<or>
          (\<exists>md. map_of vs' ''medium'' = Some (PDict md) \<and> map_of md ''url'' = Some u))))"
proof (intro conjI impI)
  assume a: "http_get e (requests_log st) (search_request k q) = Some r \<and>
    raise_for_status r = Inr () \<and> json r = Some (PDict d) \<and>
    map_of d ''hits'' = Some (PList (PDict hitd # others)) \<and>
    map_of hitd ''videos'' = Some (PDict vs)"
  then have res: "snd (px_search_video e k q st) = select_best q (PDict d)"
    by (intro px_search_video_result [of e st k q r]) simp_all
  from a have v: "getitem (PDict hitd) ''videos'' = Inr (PDict vs)" by simp
  {
    assume "map_of vs ''large'' = None"
    with a v show "snd (px_search_video e k q st) = Inl (KeyError ''large'')"
      unfolding res by (intro select_best_no_large [of d "PDict hitd" others vs]) simp_all
  }
  {
    assume "map_of vs ''large'' = Some PNone \<and> map_of vs ''medium'' = Some PNone"
    with a v show "snd (px_search_video e k q st) = Inl TypeError"
      unfolding res by (intro select_best_both_null [of d "PDict hitd" others vs]) simp_all
  }
next
  assume "snd (px_search_video e k q st) = Inr u"
  then obtain r' data where r: "http_get e (requests_log st) (search_request k q) = Some r'"
    and j: "json r' = Some data" and s: "select_best q data = Inr u"
    using px_search_video_Inr by blast
  from select_best_Inr [OF s] r j
  show "\<exists>r' d' hitd' others' vs' large.
         http_get e (requests_log st) (search_request k q) = Some r' \<and> json r' = Some (PDict d') \<and>
         map_of d' ''hits'' = Some (PList (PDict hitd' # others')) \<and>
         map_of hitd' ''videos'' = Some (PDict vs') \<and> map_of vs' ''large'' = Some large \<and>
         ((\<exists>lg. large = PDict lg \<and> map_of lg ''url'' = Some u) \<or>
          (\<exists>md. map_of vs' ''medium'' = Some (PDict md) \<and> map_of md ''url'' = Some u))"
    by blast
qed

theorem px_search_video_partial_witness:
  "snd (px_search_video
          (sample_env (body_of_videos [(''small'', rendition ''https://cdn/small.mp4'')]))
          ''secret'' ''cross silhouette sunset'' empty_disk) = Inl (KeyError ''large'') \<and>
   snd (px_search_video
          (sample_env (body_of_videos [(''large'', PNone), (''medium'', PNone)]))
          ''secret'' ''cross silhouette sunset'' empty_disk) = Inl TypeError \<and>
   snd (px_search_video
          (sample_env (body_of_videos [(''large'', rendition ''https://cdn/large.mp4'')]))
          ''secret'' ''cross silhouette sunset'' empty_disk) = Inr (PStr ''https://cdn/large.mp4'') \<and>
   (\<exists>r' d' hitd' others' vs' large.
      http_get (sample_env (body_of_videos [(''large'', rendition ''https://cdn/large.mp4'')]))
        (requests_log empty_disk) (search_request ''secret'' ''cross silhouette sunset'') = Some r' \<and>
      json r' = Some (PDict d') \<and>
      map_of d' ''hits'' = Some (PList (PDict hitd' # others')) \<and>
      map_of hitd' ''videos'' = Some (PDict vs') \<and> map_of vs' ''large'' = Some large \<and>
      ((\<exists>lg. large = PDict lg \<and> map_of lg ''url'' = Some (PStr ''https://cdn/large.mp4'')) \<or>
       (\<exists>md. map_of vs' ''medium'' = Some (PDict md) \<and>
          map_of md ''url'' = Some (PStr ''https://cdn/large.mp4''))))"
proof -
  let ?vs1 = "[(''small'', rendition ''https://cdn/small.mp4'')]"
  let ?vs2 = "[(''large'', PNone), (''medium'', PNone)]"
  let ?vs3 = "[(''large'', rendition ''https://cdn/large.mp4'')]"
  let ?res = "\<lambda>vs. snd (px_search_video (sample_env (body_of_videos vs)) ''secret''
                 ''cross silhouette sunset'' empty_disk)"
  have 1: "?res ?vs1 = Inl (KeyError ''large'')"
    using px_search_video_partial [of "sample_env (body_of_videos ?vs1)" empty_disk "''secret''"
        "''cross silhouette sunset''" "json_response (body_of_videos ?vs1)"
        "[(''hits'', PList [PDict [(''videos'', PDict ?vs1)]])]"
        "[(''videos'', PDict ?vs1)]" "[]" ?vs1]
    by (simp add: sample_env_def search_request_def json_response_def raise_for_status_def
        body_of_videos_def)
  have 2: "?res ?vs2 = Inl TypeError"
    using px_search_video_partial [of "sample_env (body_of_videos ?vs2)" empty_disk "''secret''"
        "''cross silhouette sunset''" "json_response (body_of_videos ?vs2)"
        "[(''hits'', PList [PDict [(''videos'', PDict ?vs2)]])]"
        "[(''videos'', PDict ?vs2)]" "[]" ?vs2]
    by (simp add: sample_env_def search_request_def json_response_def raise_for_status_def
        body_of_videos_def)
  have 3: "?res ?vs3 = Inr (PStr ''https://cdn/large.mp4'')"
    by (simp add: px_search_video_def requests_get_def sample_env_def search_request_def
        json_response_def raise_for_status_def resp_json_def select_best_def body_of_videos_def
        rendition_def empty_disk_def Let_def)
  note c = px_search_video_partial [of "sample_env (body_of_videos ?vs3)" empty_disk "''secret''"
        "''cross silhouette sunset''" _ _ _ _ _
        "PStr ''https://cdn/large.mp4''", THEN conjunct2]
  from c 3 have 4: "\<exists>r' d' hitd' others' vs' large.
      http_get (sample_env (body_of_videos ?vs3))
        (requests_log empty_disk) (search_request ''secret'' ''cross silhouette sunset'') = Some r' \<and>
      json r' = Some (PDict d') \<and>
      map_of d' ''hits'' = Some (PList (PDict hitd' # others')) \<and>
      map_of hitd' ''videos'' = Some (PDict vs') \<and> map_of vs' ''large'' = Some large \<and>
      ((\<exists>lg. large = PDict lg \<and> map_of lg ''url'' = Some (PStr ''https://cdn/large.mp4'')) \<or>
       (\<exists>md. map_of vs' ''medium'' = Some (PDict md) \<and>
          map_of md ''url'' = Some (PStr ''https://cdn/large.mp4'')))"
    by (rule mp)
  from 1 2 3 4 show ?thesis by (intro conjI)
qed

lemma fetch_segments_search_error:
  assumes "snd (px_search_video e k q st) = Inl err"
  shows "fetch_segments e k ((q, dur, fname) # rest) cl st = (issue (search_request k q) st, Inl err)"
proof -
  have "px_search_video e k q st = (issue (search_request k q) st, Inl err)"
    using assms px_search_video_state [of e k q st] by (metis prod.collapse)
  then show ?thesis by (simp add: fetch_segment_def)
qed

lemma px_search_video_RuntimeError:
  "snd (px_search_video e k q st) = Inl (RuntimeError q') \<longleftrightarrow>
      q' = q \<and>
      (\<exists>r d. http_get e (requests_log st) (search_request k q) = Some r \<and>
         raise_for_status r = Inr () \<and> json r = Some (PDict d) \<and>
         (case map_of d ''hits'' of None \<Rightarrow> True | Some hits \<Rightarrow> \<not> truthy hits))"
  (is "?L \<longleftrightarrow> ?R")
proof
  assume ?L
  then obtain r data where "http_get e (requests_log st) (search_request k q) = Some r"
    "raise_for_status r = Inr ()" "json r = Some data" "select_best q data = Inl (RuntimeError q')"
    using px_search_video_Inl by blast
  then show ?R by (auto simp: select_best_RuntimeError)
next
  assume ?R
  then obtain r d where q: "q' = q" and r: "http_get e (requests_log st) (search_request k q) = Some r"
    "raise_for_status r = Inr ()" "json r = Some (PDict d)"
    and h: "case map_of d ''hits'' of None \<Rightarrow> True | Some hits \<Rightarrow> \<not> truthy hits"
    by blast
  from r have "snd (px_search_video e k q st) = select_best q (PDict d)"
    by (rule px_search_video_result)
  also from h have "\<dots> = Inl (RuntimeError q)" by (simp add: select_best_RuntimeError)
  finally show ?L using q by simp
qed

text \<open>
  Claim no_results_error: the function raises the error of line 52 exactly when the request succeeds with
  a JSON object whose \<^verbatim>\<open>"hits"\<close> entry is missing or falsy (for a list: empty). The loop
  then ends with that error, having issued the search request and nothing else, so no
  download request is made for the segment. The statement holds for any list built so far
  and any state, that is, for every iteration.
\<close>

theorem no_results_error:
  "(snd (px_search_video e k q st) = Inl (RuntimeError q') \<longleftrightarrow>
      q' = q \<and>
      (\<exists>r d. http_get e (requests_log st) (search_request k q) = Some r \<and>
         raise_for_status r = Inr () \<and> json r = Some (PDict d) \<and>
         (case map_of d ''hits'' of None \<Rightarrow> True | Some hits \<Rightarrow> \<not> truthy hits))) \<and>
   (snd (px_search_video e k q st) = Inl (RuntimeError q) \<longrightarrow>
      fetch_segments e k ((q, dur, fname) # rest) cl st =
        (issue (search_request k q) st, Inl (RuntimeError q)))"
  using px_search_video_RuntimeError [of e k q st q']
    fetch_segments_search_error [of e k q st "RuntimeError q" dur fname rest cl]
  by simp

theorem no_results_error_witness:
  "snd (px_search_video (sample_env (PDict [(''hits'', PList [])])) ''secret'' ''bible pages turning''
          empty_disk) = Inl (RuntimeError ''bible pages turning'') \<and>
   fetch_segments (sample_env (PDict [(''hits'', PList [])])) ''secret''
       [(''bible pages turning'', 10, ''bible.mp4''), (''family hug reunion'', 10, ''family.mp4'')]
       [] empty_disk =
     (issue (search_request ''secret'' ''bible pages turning'') empty_disk,
      Inl (RuntimeError ''bible pages turning''))"
proof -
  let ?e = "sample_env (PDict [(''hits'', PList [])])"
  note inst = no_results_error [of ?e "''secret''" "''bible pages turning''" empty_disk "''bible pages turning''"
        10 "''bible.mp4''" "[(''family hug reunion'', 10, ''family.mp4'')]" "[]"]
  have "http_get ?e (requests_log empty_disk)
            (search_request ''secret'' ''bible pages turning'') =
          Some (json_response (PDict [(''hits'', PList [])]))"
    by (simp add: sample_env_def search_request_def)
  moreover have "raise_for_status (json_response (PDict [(''hits'', PList [])])) = Inr ()"
    by (simp add: json_response_def raise_for_status_def)
  moreover have "json (json_response (PDict [(''hits'', PList [])])) = Some (PDict [(''hits'', PList [])])"
    by (simp add: json_response_def)
  moreover have "case map_of [(''hits'', PList [])] ''hits'' of None \<Rightarrow> True
     | Some hits \<Rightarrow> \<not> truthy hits"
    by simp
  ultimately have "\<exists>r d. http_get ?e (requests_log empty_disk)
            (search_request ''secret'' ''bible pages turning'') = Some r \<and>
         raise_for_status r = Inr () \<and> json r = Some (PDict d) \<and>
         (case map_of d ''hits'' of None \<Rightarrow> True | Some hits \<Rightarrow> \<not> truthy hits)"
    by blast
  with inst have 1: "snd (px_search_video ?e ''secret'' ''bible pages turning'' empty_disk) =
      Inl (RuntimeError ''bible pages turning'')"
    by simp
  with inst show ?thesis by simp
qed

section \<open>How the state evolves\<close>

lemma issue_simps [simp]:
  "files (issue r st) = files st" "requests_log (issue r st) = requests_log st @ [r]"
  by (simp_all add: issue_def)

lemma px_search_video_eq:
  "px_search_video e k q st = (issue (search_request k q) st, snd (px_search_video e k q st))"
  by (metis px_search_video_state prod.collapse)

lemma download_exists:
  "files st dst \<noteq> None \<Longrightarrow> download e u dst st = (st, Inr ())"
  by (simp add: download_def)

lemma download_log:
  "requests_log (fst (download e u dst st)) =
     requests_log st @ (if files st dst \<noteq> None then [] else [download_request u])"
  by (auto simp: download_def Let_def split: sum.splits)

lemma download_files_other:
  "p \<noteq> dst \<Longrightarrow> files (fst (download e u dst st)) p = files st p"
  by (auto simp: download_def Let_def split: sum.splits)

lemma download_files_keep:
  "files st p = Some b \<Longrightarrow> files (fst (download e u dst st)) p = Some b"
  by (cases "p = dst") (simp_all add: download_exists download_files_other)

lemma download_ok_exists:
  "snd (download e u dst st) = Inr x \<Longrightarrow> files (fst (download e u dst st)) dst \<noteq> None"
  by (auto simp: download_def Let_def split: sum.splits if_splits)

lemma process_clip_cong:
  "files st fp = files st' fp \<Longrightarrow> process_clip e st fp dur = process_clip e st' fp dur"
  by (simp add: process_clip_def VideoFileClip_def)

lemma process_clip_exists:
  "process_clip e st fp dur = Inr c \<Longrightarrow> files st fp \<noteq> None"
  by (auto simp: process_clip_def VideoFileClip_def bind_err_Inr_iff split: option.splits)

lemma process_clip_filename:
  "process_clip e st fp dur = Inr c \<Longrightarrow> filename c = fp"
proof -
  assume "process_clip e st fp dur = Inr c"
  then obtain c0 where c0: "VideoFileClip e st fp = Inr c0"
    and c: "c = set_fps 30 (resize_step e (c0\<lparr>source_start := source_start c0, duration := of_int dur\<rparr>))"
    using process_clip_Inr by blast
  from c0 have "filename c0 = fp"
    by (auto simp: VideoFileClip_def split: option.splits)
  then show ?thesis by (simp add: c set_fps_def resize_step_def)
qed

subsection \<open>One iteration\<close>

text \<open>The three ways an iteration can go, as one equation.\<close>

lemma fetch_segment_unfold:
  "fetch_segment e k (q, dur, fname) st =
     (let st1 = issue (search_request k q) st
      in case snd (px_search_video e k q st) of
           Inl err \<Rightarrow> (st1, Inl err)
         | Inr u \<Rightarrow>
             (case snd (download e u (ASSETS fname) st1) of
                Inl err \<Rightarrow> (fst (download e u (ASSETS fname) st1), Inl err)
              | Inr _ \<Rightarrow>
                  (fst (download e u (ASSETS fname) st1),
                   process_clip e (fst (download e u (ASSETS fname) st1)) (ASSETS fname) dur)))"
proof -
  obtain r where r: "px_search_video e k q st = (issue (search_request k q) st, r)"
    using px_search_video_eq by blast
  show ?thesis
  proof (cases r)
    case (Inl err)
    with r show ?thesis by (simp add: fetch_segment_def)
  next
    case (Inr u)
    obtain st2 d where d: "download e u (ASSETS fname) (issue (search_request k q) st) = (st2, d)"
      by (cases "download e u (ASSETS fname) (issue (search_request k q) st)")
    with r Inr show ?thesis by (cases d) (simp_all add: fetch_segment_def)
  qed
qed

lemma fetch_segment_log:
  "\<exists>rest. requests_log (fst (fetch_segment e k (q, dur, fname) st)) =
      requests_log st @ search_request k q # rest \<and>
      (files st (ASSETS fname) \<noteq> None \<longrightarrow> rest = []) \<and>
      (\<forall>r \<in> set rest. stream r)"
  by (auto simp: fetch_segment_unfold Let_def download_log download_request_def split: sum.splits)

lemma fetch_segment_files_other:
  "p \<noteq> ASSETS fname \<Longrightarrow> files (fst (fetch_segment e k (q, dur, fname) st)) p = files st p"
  by (auto simp: fetch_segment_unfold Let_def download_files_other split: sum.splits)

lemma fetch_segment_files_keep:
  "files st p = Some b \<Longrightarrow> files (fst (fetch_segment e k (q, dur, fname) st)) p = Some b"
  by (auto simp: fetch_segment_unfold Let_def download_files_keep split: sum.splits)

lemma fetch_segment_Inr:
  "fetch_segment e k (q, dur, fname) st = (st', Inr c) \<Longrightarrow>
     process_clip e st' (ASSETS fname) dur = Inr c"
  by (auto simp: fetch_segment_unfold Let_def split: sum.splits)

subsection \<open>The loop\<close>

lemma fetch_segments_Cons:
  "fetch_segments e k (seg # rest) cl st =
     (case snd (fetch_segment e k seg st) of
        Inl err \<Rightarrow> (fst (fetch_segment e k seg st), Inl err)
      | Inr c \<Rightarrow> fetch_segments e k rest (cl @ [c]) (fst (fetch_segment e k seg st)))"
  by (cases "fetch_segment e k seg st") (simp split: sum.splits)

lemma fetch_segments_files_keep:
  "files st p = Some b \<Longrightarrow> files (fst (fetch_segments e k segs cl st)) p = Some b"
proof (induction segs arbitrary: cl st)
  case Nil
  then show ?case by simp
next
  case (Cons seg rest)
  obtain q dur fname where seg: "seg = (q, dur, fname)" by (cases seg)
  from Cons.prems have "files (fst (fetch_segment e k seg st)) p = Some b"
    unfolding seg by (rule fetch_segment_files_keep)
  with Cons.IH show ?case
    by (simp add: fetch_segments_Cons del: fetch_segments.simps split: sum.splits)
qed

lemma fetch_segments_files_other:
  "p \<notin> asset_path ` set segs \<Longrightarrow> files (fst (fetch_segments e k segs cl st)) p = files st p"
proof (induction segs arbitrary: cl st)
  case Nil
  then show ?case by simp
next
  case (Cons seg rest)
  obtain q dur fname where seg: "seg = (q, dur, fname)" by (cases seg)
  from Cons.prems have "p \<noteq> ASSETS fname" by (auto simp: seg asset_path_def)
  then have 1: "files (fst (fetch_segment e k seg st)) p = files st p"
    unfolding seg by (rule fetch_segment_files_other)
  from Cons.prems have 2: "p \<notin> asset_path ` set rest" by auto
  show ?case
    using 1 Cons.IH [OF 2]
    by (simp add: fetch_segments_Cons del: fetch_segments.simps split: sum.splits)
qed

lemma fetch_segments_cached:
  "\<forall>seg \<in> set segs. files st (asset_path seg) \<noteq> None \<Longrightarrow>
   \<exists>new. requests_log (fst (fetch_segments e k segs cl st)) = requests_log st @ new \<and>
         filter stream new = []"
proof (induction segs arbitrary: cl st)
  case Nil
  then show ?case by simp
next
  case (Cons seg rest)
  obtain q dur fname where seg: "seg = (q, dur, fname)" by (cases seg)
  let ?st1 = "fst (fetch_segment e k seg st)"
  from Cons.prems have ex: "files st (ASSETS fname) \<noteq> None" by (simp add: seg asset_path_def)
  with fetch_segment_log [of e k q dur fname st]
  have log1: "requests_log ?st1 = requests_log st @ [search_request k q]"
    by (auto simp: seg)
  have keep: "\<forall>s \<in> set rest. files ?st1 (asset_path s) \<noteq> None"
  proof
    fix s assume "s \<in> set rest"
    with Cons.prems obtain b where "files st (asset_path s) = Some b" by auto
    then have "files ?st1 (asset_path s) = Some b"
      unfolding seg by (rule fetch_segment_files_keep)
    then show "files ?st1 (asset_path s) \<noteq> None" by simp
  qed
  show ?case
  proof (cases "snd (fetch_segment e k seg st)")
    case (Inl err)
    with log1 show ?thesis
      by (simp add: fetch_segments_Cons search_request_def del: fetch_segments.simps)
  next
    case (Inr c)
    from Cons.IH [OF keep, of "cl @ [c]"] obtain new where
      "requests_log (fst (fetch_segments e k rest (cl @ [c]) ?st1)) = requests_log ?st1 @ new"
      "filter stream new = []" by blast
    with Inr log1 show ?thesis
      by (simp add: fetch_segments_Cons search_request_def del: fetch_segments.simps)
  qed
qed

lemma fetch_segments_searches:
  "fetch_segments e k segs cl st = (st', Inr cl') \<Longrightarrow>
   \<exists>new. requests_log st' = requests_log st @ new \<and>
         filter (\<lambda>r. \<not> stream r) new = map (search_of k) segs"
proof (induction segs arbitrary: cl st)
  case Nil
  then show ?case by simp
next
  case (Cons seg rest)
  obtain q dur fname where seg: "seg = (q, dur, fname)" by (cases seg)
  let ?st1 = "fst (fetch_segment e k seg st)"
  from fetch_segment_log [of e k q dur fname st] obtain more1 where
    log1: "requests_log ?st1 = requests_log st @ search_request k q # more1"
    and dl: "\<forall>r \<in> set more1. stream r" by (auto simp: seg)
  from dl have f1: "filter (\<lambda>r. \<not> stream r) more1 = []" by (simp add: filter_empty_conv)
  from Cons.prems obtain c where c: "snd (fetch_segment e k seg st) = Inr c"
    and rest: "fetch_segments e k rest (cl @ [c]) ?st1 = (st', Inr cl')"
    by (auto simp: fetch_segments_Cons simp del: fetch_segments.simps split: sum.splits)
  from Cons.IH [OF rest] obtain new where
    "requests_log st' = requests_log ?st1 @ new"
    "filter (\<lambda>r. \<not> stream r) new = map (search_of k) rest" by blast
  with log1 f1 have "requests_log st' = requests_log st @ (search_request k q # more1 @ new) \<and>
    filter (\<lambda>r. \<not> stream r) (search_request k q # more1 @ new) = map (search_of k) (seg # rest)"
    by (simp add: seg search_of_def search_request_def)
  then show ?case by blast
qed

lemma fetch_segments_clips:
  "fetch_segments e k segs cl st = (st', Inr cl') \<Longrightarrow>
   \<exists>new. cl' = cl @ new \<and> map (processed e st') segs = map Inr new"
proof (induction segs arbitrary: cl st)
  case Nil
  then show ?case by simp
next
  case (Cons seg rest)
  obtain q dur fname where seg: "seg = (q, dur, fname)" by (cases seg)
  let ?st1 = "fst (fetch_segment e k seg st)"
  from Cons.prems obtain c where c: "snd (fetch_segment e k seg st) = Inr c"
    and rest: "fetch_segments e k rest (cl @ [c]) ?st1 = (st', Inr cl')"
    by (auto simp: fetch_segments_Cons simp del: fetch_segments.simps split: sum.splits)
  from c have "fetch_segment e k (q, dur, fname) st = (?st1, Inr c)"
    by (metis seg prod.collapse)
  then have pc: "process_clip e ?st1 (ASSETS fname) dur = Inr c" by (rule fetch_segment_Inr)
  then obtain b where b: "files ?st1 (ASSETS fname) = Some b"
    using process_clip_exists by fastforce
  have "files (fst (fetch_segments e k rest (cl @ [c]) ?st1)) (ASSETS fname) = Some b"
    using b by (rule fetch_segments_files_keep)
  with rest b have "files st' (ASSETS fname) = files ?st1 (ASSETS fname)" by simp
  then have "process_clip e st' (ASSETS fname) dur = process_clip e ?st1 (ASSETS fname) dur"
    by (rule process_clip_cong)
  with pc have here: "processed e st' seg = Inr c" by (simp add: processed_def seg)
  from Cons.IH [OF rest] obtain new where
    "cl' = (cl @ [c]) @ new" "map (processed e st') rest = map Inr new" by blast
  with here have "cl' = cl @ (c # new) \<and> map (processed e st') (seg # rest) = map Inr (c # new)"
    by simp
  then show ?case by blast
qed

subsection \<open>Audio, export and the whole run\<close>

lemma ASSETS_not_audio [simp]:
  "ASSETS fname \<noteq> ''music.mp3''" "ASSETS fname \<noteq> ''vo.wav''" "ASSETS fname \<noteq> ''final_video.mp4''"
  by (simp_all add: ASSETS_def)

lemma asset_path_not_audio:
  "''music.mp3'' \<notin> asset_path ` set segs" "''vo.wav'' \<notin> asset_path ` set segs"
  "''final_video.mp4'' \<notin> asset_path ` set segs"
  by (auto simp: asset_path_def split: prod.splits dest: sym)

lemma write_videofile_log [simp]:
  "requests_log (fst (write_videofile e v out st)) = requests_log st"
  by (simp add: write_videofile_def split: prod.splits)

lemma write_videofile_files_other:
  "p \<noteq> out \<Longrightarrow> files (fst (write_videofile e v out st)) p = files st p"
  by (simp add: write_videofile_def split: prod.splits option.splits)

lemma write_videofile_files_exist:
  "files st p \<noteq> None \<Longrightarrow> files (fst (write_videofile e v out st)) p \<noteq> None"
  by (simp add: write_videofile_def split: prod.splits option.splits)

lemma add_audio_Inr:
  "add_audio e st p v audios = Inr a \<Longrightarrow>
     a = audios @ (if files st p \<noteq> None then [\<lparr>audio_file = p, volume = v\<rparr>] else [])"
  by (auto simp: add_audio_def split: option.splits if_splits)

lemma audio_stage_Inr:
  assumes "audio_stage e st v = Inr v'"
  shows "audio v' =
           (case expected_audio (files st ''music.mp3'' \<noteq> None) (files st ''vo.wav'' \<noteq> None) of
              None \<Rightarrow> audio v
            | Some c \<Rightarrow> Some (Composite c))"
    and "clips v' = clips v" and "concat_method v' = concat_method v"
proof -
  from assms obtain a1 a2 where a1: "add_audio e st ''music.mp3'' (1 / 4) [] = Inr a1"
    and a2: "add_audio e st ''vo.wav'' 1 a1 = Inr a2"
    and v': "v' = (if a2 \<noteq> [] then v\<lparr>audio := Some (Composite \<lparr>layers = a2, fadeout = 1\<rparr>)\<rparr> else v)"
    by (auto simp: audio_stage_def bind_err_Inr_iff)
  from add_audio_Inr [OF a1] add_audio_Inr [OF a2]
  have a2': "a2 = (if files st ''music.mp3'' \<noteq> None then [\<lparr>audio_file = ''music.mp3'', volume = 1 / 4\<rparr>] else []) @
                  (if files st ''vo.wav'' \<noteq> None then [\<lparr>audio_file = ''vo.wav'', volume = 1\<rparr>] else [])"
    by simp
  show "audio v' =
           (case expected_audio (files st ''music.mp3'' \<noteq> None) (files st ''vo.wav'' \<noteq> None) of
              None \<Rightarrow> audio v
            | Some c \<Rightarrow> Some (Composite c))"
    unfolding v' a2' by (auto simp: expected_audio_def)
  show "clips v' = clips v" "concat_method v' = concat_method v"
    unfolding v' by simp_all
qed

lemma run_Inr:
  assumes "run e segs st = (st', Inr v)"
  shows "\<exists>k st1 cl. API_KEY e = Inr k \<and> fetch_segments e k segs [] st = (st1, Inr cl) \<and>
           audio_stage e st1 (concatenate_videoclips cl ''compose'') = Inr v \<and>
           st' = fst (write_videofile e v ''final_video.mp4'' st1)"
  using assms
  by (auto simp: run_def split: sum.splits prod.splits)

lemma run_log:
  "API_KEY e = Inr k \<Longrightarrow>
     requests_log (fst (run e segs st)) = requests_log (fst (fetch_segments e k segs [] st))"
proof -
  assume k: "API_KEY e = Inr k"
  obtain st1 r where f: "fetch_segments e k segs [] st = (st1, r)"
    by (cases "fetch_segments e k segs [] st")
  show ?thesis
  proof (cases r)
    case (Inl err)
    with k f show ?thesis by (simp add: run_def)
  next
    case (Inr cl)
    show ?thesis
    proof (cases "audio_stage e st1 (concatenate_videoclips cl ''compose'')")
      case (Inl err)
      with k f Inr show ?thesis by (simp add: run_def)
    next
      case a: (Inr v)
      obtain st2 x where w: "write_videofile e v ''final_video.mp4'' st1 = (st2, x)"
        by (cases "write_videofile e v ''final_video.mp4'' st1")
      then have "requests_log st2 = requests_log st1"
        using write_videofile_log [of e v "''final_video.mp4''" st1] by simp
      with k f Inr a w show ?thesis by (cases x) (simp_all add: run_def)
    qed
  qed
qed

lemma run_cached:
  assumes "\<forall>seg \<in> set segs. files st (asset_path seg) \<noteq> None"
  shows "\<exists>new. requests_log (fst (run e segs st)) = requests_log st @ new \<and> filter stream new = []"
proof (cases "API_KEY e")
  case (Inl err)
  then show ?thesis by (simp add: run_def)
next
  case (Inr k)
  from fetch_segments_cached [OF assms, of e k "[]"] run_log [OF Inr, of segs st]
  show ?thesis by simp
qed

lemma run_assets_exist:
  assumes "run e segs st = (st', Inr v)"
  shows "\<forall>seg \<in> set segs. files st' (asset_path seg) \<noteq> None"
proof
  fix seg assume seg: "seg \<in> set segs"
  from run_Inr [OF assms] obtain k st1 cl where
    f: "fetch_segments e k segs [] st = (st1, Inr cl)"
    and st': "st' = fst (write_videofile e v ''final_video.mp4'' st1)" by blast
  from fetch_segments_clips [OF f] obtain new where
    m: "map (processed e st1) segs = map Inr new" by blast
  from seg have "processed e st1 seg \<in> set (map (processed e st1) segs)" by simp
  with m obtain c where "processed e st1 seg = Inr c" by auto
  then have "files st1 (asset_path seg) \<noteq> None"
    by (cases seg) (auto simp: processed_def asset_path_def dest: process_clip_exists)
  then show "files st' (asset_path seg) \<noteq> None"
    unfolding st' by (rule write_videofile_files_exist)
qed

lemma run_clips:
  assumes "run e segs st = (st', Inr v)"
  shows "map (processed e st') segs = map Inr (clips v)" and "concat_method v = ''compose''"
proof -
  from run_Inr [OF assms] obtain k st1 cl where
    f: "fetch_segments e k segs [] st = (st1, Inr cl)"
    and a: "audio_stage e st1 (concatenate_videoclips cl ''compose'') = Inr v"
    and st': "st' = fst (write_videofile e v ''final_video.mp4'' st1)" by blast
  from fetch_segments_clips [OF f] have m: "map (processed e st1) segs = map Inr cl" by simp
  from audio_stage_Inr(2,3) [OF a] have v: "clips v = cl" "concat_method v = ''compose''"
    by (simp_all add: concatenate_videoclips_def)
  have "processed e st' seg = processed e st1 seg" for seg
  proof (cases seg)
    case (fields q dur fname)
    have "files st' (ASSETS fname) = files st1 (ASSETS fname)"
      unfolding st' by (rule write_videofile_files_other) simp
    then have "process_clip e st' (ASSETS fname) dur = process_clip e st1 (ASSETS fname) dur"
      by (rule process_clip_cong)
    then show ?thesis by (simp add: fields processed_def)
  qed
  then have "processed e st' = processed e st1" by (rule ext)
  with m v show "map (processed e st') segs = map Inr (clips v)" by simp
  from v show "concat_method v = ''compose''" by simp
qed

lemma run_audio:
  assumes "run e segs st = (st', Inr v)"
  shows "audio v =
           (case expected_audio (files st ''music.mp3'' \<noteq> None) (files st ''vo.wav'' \<noteq> None) of
              None \<Rightarrow> clips_audio (clips v)
            | Some c \<Rightarrow> Some (Composite c))"
proof -
  from run_Inr [OF assms] obtain k st1 cl where
    f: "fetch_segments e k segs [] st = (st1, Inr cl)"
    and a: "audio_stage e st1 (concatenate_videoclips cl ''compose'') = Inr v" by blast
  have "files (fst (fetch_segments e k segs [] st)) ''music.mp3'' = files st ''music.mp3''"
    "files (fst (fetch_segments e k segs [] st)) ''vo.wav'' = files st ''vo.wav''"
    by (rule fetch_segments_files_other, rule asset_path_not_audio)+
  with f have same: "files st1 ''music.mp3'' = files st ''music.mp3''"
    "files st1 ''vo.wav'' = files st ''vo.wav''" by simp_all
  from audio_stage_Inr(2) [OF a] have cl: "clips v = cl"
    by (simp add: concatenate_videoclips_def)
  have "audio (concatenate_videoclips cl ''compose'') = clips_audio cl"
    by (simp add: concatenate_videoclips_def)
  with audio_stage_Inr(1) [OF a] same cl show ?thesis
    by (simp split: option.splits)
qed

section \<open>The run as a whole\<close>

lemmas sample_defs = sample_env_def good_body_def body_of_videos_def rendition_def
  json_response_def file_response_def two_segments_def disk_with_def empty_disk_def

lemmas script_defs = run_def API_KEY_def fetch_segment_def px_search_video_def requests_get_def
  search_request_def raise_for_status_def resp_json_def select_best_def download_def
  download_request_def issue_def process_clip_def VideoFileClip_def subclip_def resize_step_def
  set_fps_def concatenate_videoclips_def clips_audio_def audio_stage_def add_audio_def write_videofile_def
  settings_def ASSETS_def Let_def

lemma run_collapse: "snd (run e segs st) = Inr v \<Longrightarrow> run e segs st = (fst (run e segs st), Inr v)"
  by (metis prod.collapse)

lemma processed_filenames:
  "map (processed e st) segs = map Inr cl \<Longrightarrow> map filename cl = map asset_path segs"
proof (induction segs arbitrary: cl)
  case Nil
  then show ?case by simp
next
  case (Cons seg rest)
  from Cons.prems obtain c cl' where cl: "cl = c # cl'" and c: "processed e st seg = Inr c"
    and rest: "map (processed e st) rest = map Inr cl'"
    by (cases cl) auto
  from c have "filename c = asset_path seg"
    by (cases seg) (auto simp: processed_def asset_path_def dest: process_clip_filename)
  with Cons.IH [OF rest] cl show ?case by simp
qed

text \<open>
  Claim C1: when the run produces a video, the clips given to the concatenation (method
  \<^verbatim>\<open>compose\<close>) are exactly the processed clips of the segments, one per segment and in
  the order of the configuration list; in particular the files they read are the
  segments' files in that order.
\<close>

theorem final_video_order:
  "run e segs st = (st', Inr v) \<longrightarrow>
     map (processed e st') segs = map Inr (clips v) \<and>
     map filename (clips v) = map asset_path segs \<and>
     concat_method v = ''compose''"
proof
  assume r: "run e segs st = (st', Inr v)"
  from run_clips [OF r] processed_filenames [of e st' segs "clips v"]
  show "map (processed e st') segs = map Inr (clips v) \<and>
     map filename (clips v) = map asset_path segs \<and> concat_method v = ''compose''"
    by simp
qed

theorem final_video_order_witness:
  "\<exists>st' v. run (sample_env good_body) two_segments empty_disk = (st', Inr v) \<and>
     map filename (clips v) = [''assets/sunrise.mp4'', ''assets/friends.mp4''] \<and>
     map (processed (sample_env good_body) st') two_segments = map Inr (clips v)"
proof -
  let ?e = "sample_env good_body"
  let ?c1 = "\<lparr>filename = ''assets/sunrise.mp4'', w = 1080, h = 607, source_start = 0,
              duration = 5, fps = 30, with_audio = True\<rparr>"
  let ?c2 = "\<lparr>filename = ''assets/friends.mp4'', w = 1080, h = 607, source_start = 0,
              duration = 5, fps = 30, with_audio = True\<rparr>"
  let ?v = "\<lparr>clips = [?c1, ?c2], concat_method = ''compose'',
              audio = Some (ClipsAudio [?c1, ?c2])\<rparr>"
  have "snd (run ?e two_segments empty_disk) = Inr ?v"
    by (simp add: sample_defs script_defs)
  then have r: "run ?e two_segments empty_disk = (fst (run ?e two_segments empty_disk), Inr ?v)"
    by (rule run_collapse)
  from final_video_order [of ?e two_segments empty_disk "fst (run ?e two_segments empty_disk)" ?v] r
  have "map (processed ?e (fst (run ?e two_segments empty_disk))) two_segments = map Inr (clips ?v)"
    and "map filename (clips ?v) = map asset_path two_segments"
    by simp_all
  moreover have "map asset_path two_segments = [''assets/sunrise.mp4'', ''assets/friends.mp4'']"
    by (simp add: two_segments_def asset_path_def ASSETS_def)
  ultimately show ?thesis using r by (intro exI [of _ "fst (run ?e two_segments empty_disk)"] exI [of _ ?v]) simp
qed

text \<open>
  Claim C5: when the destination exists, \<^verbatim>\<open>download\<close> returns at once, with no request
  issued and the state (so every file) unchanged. Hence a run that starts with every
  segment's file on disk issues no download request, and so does any run that starts
  from the state a completed run left.
\<close>

theorem download_cache:
  "(files st dst \<noteq> None \<longrightarrow> download e u dst st = (st, Inr ())) \<and>
   ((\<forall>seg \<in> set segs. files st (asset_path seg) \<noteq> None) \<longrightarrow>
      (\<exists>new. requests_log (fst (run e segs st)) = requests_log st @ new \<and> filter stream new = [])) \<and>
   (run e1 segs st0 = (st1, Inr v1) \<longrightarrow>
      (\<exists>new. requests_log (fst (run e segs st1)) = requests_log st1 @ new \<and> filter stream new = []))"
proof (intro conjI impI)
  assume "files st dst \<noteq> None"
  then show "download e u dst st = (st, Inr ())" by (rule download_exists)
next
  assume "\<forall>seg \<in> set segs. files st (asset_path seg) \<noteq> None"
  then show "\<exists>new. requests_log (fst (run e segs st)) = requests_log st @ new \<and> filter stream new = []"
    by (rule run_cached)
next
  assume "run e1 segs st0 = (st1, Inr v1)"
  then have "\<forall>seg \<in> set segs. files st1 (asset_path seg) \<noteq> None" by (rule run_assets_exist)
  then show "\<exists>new. requests_log (fst (run e segs st1)) = requests_log st1 @ new \<and> filter stream new = []"
    by (rule run_cached)
qed

theorem download_cache_witness:
  "download (sample_env good_body) (PStr ''https://cdn/large.mp4'') ''assets/sunrise.mp4''
       (disk_with [''assets/sunrise.mp4'']) = (disk_with [''assets/sunrise.mp4''], Inr ()) \<and>
   filter stream (requests_log (fst (run (sample_env good_body) two_segments
       (disk_with [''assets/sunrise.mp4'', ''assets/friends.mp4''])))) = [] \<and>
   (\<exists>new. requests_log (fst (run (sample_env PNone) two_segments
              (fst (run (sample_env good_body) two_segments empty_disk)))) =
            requests_log (fst (run (sample_env good_body) two_segments empty_disk)) @ new \<and>
          filter stream new = [])"
proof -
  let ?e = "sample_env good_body"
  let ?d = "disk_with [''assets/sunrise.mp4'', ''assets/friends.mp4'']"
  let ?st1 = "fst (run ?e two_segments empty_disk)"
  note a = download_cache [of "disk_with [''assets/sunrise.mp4'']" "''assets/sunrise.mp4''" ?e
      "PStr ''https://cdn/large.mp4''", THEN conjunct1]
  have 1: "download ?e (PStr ''https://cdn/large.mp4'') ''assets/sunrise.mp4''
       (disk_with [''assets/sunrise.mp4'']) = (disk_with [''assets/sunrise.mp4''], Inr ())"
    using a by (simp add: disk_with_def)
  note b = download_cache [of ?d "''x''" ?e PNone two_segments,
      THEN conjunct2, THEN conjunct1]
  have "\<forall>seg \<in> set two_segments. files ?d (asset_path seg) \<noteq> None"
    by (simp add: two_segments_def disk_with_def asset_path_def ASSETS_def)
  with b obtain new where "requests_log (fst (run ?e two_segments ?d)) = requests_log ?d @ new"
    "filter stream new = []" by blast
  then have 2: "filter stream (requests_log (fst (run ?e two_segments ?d))) = []"
    by (simp add: disk_with_def)
  obtain v where "snd (run ?e two_segments empty_disk) = Inr v"
    by (simp add: sample_defs script_defs)
  then have r: "run ?e two_segments empty_disk = (?st1, Inr v)" by (rule run_collapse)
  note c = download_cache [of empty_disk "''x''" "sample_env PNone" PNone two_segments ?e empty_disk
      ?st1 v, THEN conjunct2, THEN conjunct2]
  from c r have 3: "\<exists>new. requests_log (fst (run (sample_env PNone) two_segments ?st1)) =
            requests_log ?st1 @ new \<and> filter stream new = []"
    by (rule mp)
  from 1 2 3 show ?thesis by (intro conjI)
qed

text \<open>
  Claim C6, as stated, ends: when neither \<^verbatim>\<open>music.mp3\<close> nor \<^verbatim>\<open>vo.wav\<close> exists, the
  exported video has no audio track. It has one whenever a downloaded clip has audio:
  the clips are loaded with their audio and the concatenation keeps it.
\<close>

theorem audio_kept_without_files:
  "files empty_disk ''music.mp3'' = None \<and> files empty_disk ''vo.wav'' = None \<and>
   snd (run (sample_env good_body) two_segments empty_disk) =
     Inr \<lparr>clips =
            [\<lparr>filename = ''assets/sunrise.mp4'', w = 1080, h = 607, source_start = 0,
               duration = 5, fps = 30, with_audio = True\<rparr>,
             \<lparr>filename = ''assets/friends.mp4'', w = 1080, h = 607, source_start = 0,
               duration = 5, fps = 30, with_audio = True\<rparr>],
          concat_method = ''compose'',
          audio = Some (ClipsAudio
            [\<lparr>filename = ''assets/sunrise.mp4'', w = 1080, h = 607, source_start = 0,
               duration = 5, fps = 30, with_audio = True\<rparr>,
             \<lparr>filename = ''assets/friends.mp4'', w = 1080, h = 607, source_start = 0,
               duration = 5, fps = 30, with_audio = True\<rparr>])\<rparr>"
  by (simp add: sample_defs script_defs)

text \<open>
  Claim C6, amended: the audio stage attaches a track exactly when at least one of
  \<^verbatim>\<open>music.mp3\<close> and \<^verbatim>\<open>vo.wav\<close> exists when the run starts; the exported video then has
  one composite, with a fade-out of one second, of the music at volume 0.25 (if present)
  and the voice-over at volume 1.0 (if present). When neither file exists the exported
  video keeps the audio of the concatenated clips; it has no audio track exactly when,
  besides, no clip carries audio.
\<close>

theorem audio_policy:
  "run e segs st = (st', Inr v) \<longrightarrow>
     audio v =
       (case expected_audio (files st ''music.mp3'' \<noteq> None) (files st ''vo.wav'' \<noteq> None) of
          None \<Rightarrow> clips_audio (clips v)
        | Some c \<Rightarrow> Some (Composite c)) \<and>
     (expected_audio (files st ''music.mp3'' \<noteq> None) (files st ''vo.wav'' \<noteq> None) = None \<longleftrightarrow>
        files st ''music.mp3'' = None \<and> files st ''vo.wav'' = None) \<and>
     (audio v = None \<longleftrightarrow>
        files st ''music.mp3'' = None \<and> files st ''vo.wav'' = None \<and>
        (\<forall>c \<in> set (clips v). \<not> with_audio c))"
proof
  assume r: "run e segs st = (st', Inr v)"
  have none: "clips_audio (clips v) = None \<longleftrightarrow> (\<forall>c \<in> set (clips v). \<not> with_audio c)"
    by (simp add: clips_audio_def filter_empty_conv)
  have ex: "expected_audio (files st ''music.mp3'' \<noteq> None) (files st ''vo.wav'' \<noteq> None) = None \<longleftrightarrow>
        files st ''music.mp3'' = None \<and> files st ''vo.wav'' = None"
    by (simp add: expected_audio_def)
  from run_audio [OF r] none ex
  show "audio v =
       (case expected_audio (files st ''music.mp3'' \<noteq> None) (files st ''vo.wav'' \<noteq> None) of
          None \<Rightarrow> clips_audio (clips v)
        | Some c \<Rightarrow> Some (Composite c)) \<and>
     (expected_audio (files st ''music.mp3'' \<noteq> None) (files st ''vo.wav'' \<noteq> None) = None \<longleftrightarrow>
        files st ''music.mp3'' = None \<and> files st ''vo.wav'' = None) \<and>
     (audio v = None \<longleftrightarrow>
        files st ''music.mp3'' = None \<and> files st ''vo.wav'' = None \<and>
        (\<forall>c \<in> set (clips v). \<not> with_audio c))"
    by (cases "expected_audio (files st ''music.mp3'' \<noteq> None) (files st ''vo.wav'' \<noteq> None)") auto
qed

theorem audio_policy_witness:
  "(\<exists>st' v. run (sample_env good_body) two_segments (disk_with [''music.mp3'', ''vo.wav'']) = (st', Inr v) \<and>
      audio v = Some (Composite \<lparr>layers = [\<lparr>audio_file = ''music.mp3'', volume = 1 / 4\<rparr>,
                                             \<lparr>audio_file = ''vo.wav'', volume = 1\<rparr>], fadeout = 1\<rparr>)) \<and>
   (\<exists>st' v. run (silent_env good_body) two_segments empty_disk = (st', Inr v) \<and> audio v = None)"
proof -
  let ?e = "sample_env good_body"
  let ?d = "disk_with [''music.mp3'', ''vo.wav'']"
  obtain v where "snd (run ?e two_segments ?d) = Inr v"
    by (simp add: sample_defs script_defs)
  then have r: "run ?e two_segments ?d = (fst (run ?e two_segments ?d), Inr v)" by (rule run_collapse)
  from audio_policy [of ?e two_segments ?d "fst (run ?e two_segments ?d)" v] r
  have "audio v =
       (case expected_audio (files ?d ''music.mp3'' \<noteq> None) (files ?d ''vo.wav'' \<noteq> None) of
          None \<Rightarrow> clips_audio (clips v)
        | Some c \<Rightarrow> Some (Composite c))"
    by simp
  then have "audio v = Some (Composite \<lparr>layers = [\<lparr>audio_file = ''music.mp3'', volume = 1 / 4\<rparr>,
                                       \<lparr>audio_file = ''vo.wav'', volume = 1\<rparr>], fadeout = 1\<rparr>)"
    by (simp add: disk_with_def expected_audio_def)
  with r have 1: "\<exists>st' v. run ?e two_segments ?d = (st', Inr v) \<and>
      audio v = Some (Composite \<lparr>layers = [\<lparr>audio_file = ''music.mp3'', volume = 1 / 4\<rparr>,
                                             \<lparr>audio_file = ''vo.wav'', volume = 1\<rparr>], fadeout = 1\<rparr>)"
    by blast
  let ?s = "silent_env good_body"
  let ?c1 = "\<lparr>filename = ''assets/sunrise.mp4'', w = 1080, h = 607, source_start = 0,
              duration = 5, fps = 30, with_audio = False\<rparr>"
  let ?c2 = "\<lparr>filename = ''assets/friends.mp4'', w = 1080, h = 607, source_start = 0,
              duration = 5, fps = 30, with_audio = False\<rparr>"
  let ?v0 = "\<lparr>clips = [?c1, ?c2], concat_method = ''compose'', audio = None\<rparr>"
  have "snd (run ?s two_segments empty_disk) = Inr ?v0"
    by (simp add: silent_env_def sample_defs script_defs)
  then have r0: "run ?s two_segments empty_disk = (fst (run ?s two_segments empty_disk), Inr ?v0)"
    by (rule run_collapse)
  from audio_policy [of ?s two_segments empty_disk "fst (run ?s two_segments empty_disk)" ?v0] r0
  have "audio ?v0 = None \<longleftrightarrow>
        files empty_disk ''music.mp3'' = None \<and> files empty_disk ''vo.wav'' = None \<and>
        (\<forall>c \<in> set (clips ?v0). \<not> with_audio c)"
    by blast
  then have "audio ?v0 = None" by (simp add: empty_disk_def)
  with r0 have 2: "\<exists>st' v. run ?s two_segments empty_disk = (st', Inr v) \<and> audio v = None"
    by blast
  from 1 2 show ?thesis ..
qed

text \<open>
  Claim C9: every iteration of the loop issues the search request first, whether or not
  the segment's file exists; when the file exists, the search request is all the
  iteration issues, the existence check being inside \<^verbatim>\<open>download\<close>, which runs after the
  search. So a run that completes has issued the search request of every segment, in
  order, whatever was on disk.
\<close>

theorem search_not_cached:
  "(\<exists>rest. requests_log (fst (fetch_segment e k (q, dur, fname) st)) =
             requests_log st @ search_request k q # rest) \<and>
   (files st (ASSETS fname) \<noteq> None \<longrightarrow>
      requests_log (fst (fetch_segment e k (q, dur, fname) st)) =
        requests_log st @ [search_request k q]) \<and>
   (run e segs st = (st', Inr v) \<longrightarrow>
      (\<exists>key new. API_KEY e = Inr key \<and> requests_log st' = requests_log st @ new \<and>
         filter (\<lambda>r. \<not> stream r) new = map (search_of key) segs))"
proof (intro conjI impI)
  from fetch_segment_log [of e k q dur fname st]
  show "\<exists>rest. requests_log (fst (fetch_segment e k (q, dur, fname) st)) =
             requests_log st @ search_request k q # rest" by blast
next
  assume "files st (ASSETS fname) \<noteq> None"
  with fetch_segment_log [of e k q dur fname st]
  show "requests_log (fst (fetch_segment e k (q, dur, fname) st)) =
        requests_log st @ [search_request k q]" by auto
next
  assume r: "run e segs st = (st', Inr v)"
  from run_Inr [OF r] obtain key st1 cl where key: "API_KEY e = Inr key"
    and f: "fetch_segments e key segs [] st = (st1, Inr cl)"
    and st': "st' = fst (write_videofile e v ''final_video.mp4'' st1)" by blast
  from fetch_segments_searches [OF f] obtain new where
    "requests_log st1 = requests_log st @ new"
    "filter (\<lambda>r. \<not> stream r) new = map (search_of key) segs" by blast
  with key st' show "\<exists>key new. API_KEY e = Inr key \<and> requests_log st' = requests_log st @ new \<and>
         filter (\<lambda>r. \<not> stream r) new = map (search_of key) segs"
    by simp
qed

theorem search_not_cached_witness:
  "requests_log (fst (fetch_segment (sample_env good_body) ''secret''
       (''sunrise timelapse'', 5, ''sunrise.mp4'') (disk_with [''assets/sunrise.mp4'']))) =
     [search_request ''secret'' ''sunrise timelapse''] \<and>
   (\<exists>st' v. run (sample_env good_body) two_segments
        (disk_with [''assets/sunrise.mp4'', ''assets/friends.mp4'']) = (st', Inr v) \<and>
      requests_log st' = [search_request ''secret'' ''sunrise timelapse'',
                          search_request ''secret'' ''diverse friends smiling''])"
proof -
  let ?e = "sample_env good_body"
  let ?d1 = "disk_with [''assets/sunrise.mp4'']"
  let ?d = "disk_with [''assets/sunrise.mp4'', ''assets/friends.mp4'']"
  note a = search_not_cached [of ?e "''secret''" "''sunrise timelapse''" 5 "''sunrise.mp4''" ?d1,
      THEN conjunct2, THEN conjunct1]
  have "files ?d1 (ASSETS ''sunrise.mp4'') \<noteq> None" by (simp add: disk_with_def ASSETS_def)
  with a have 1: "requests_log (fst (fetch_segment ?e ''secret''
       (''sunrise timelapse'', 5, ''sunrise.mp4'') ?d1)) = [search_request ''secret'' ''sunrise timelapse'']"
    by (simp add: disk_with_def)
  obtain v where "snd (run ?e two_segments ?d) = Inr v"
    by (simp add: sample_defs script_defs)
  then have r: "run ?e two_segments ?d = (fst (run ?e two_segments ?d), Inr v)" by (rule run_collapse)
  note b = search_not_cached [of ?e "''k''" "''q''" 0 "''f''" ?d two_segments
      "fst (run ?e two_segments ?d)" v, THEN conjunct2, THEN conjunct2]
  from b r obtain key new where key: "API_KEY ?e = Inr key"
    and log: "requests_log (fst (run ?e two_segments ?d)) = requests_log ?d @ new"
    and new: "filter (\<lambda>r. \<not> stream r) new = map (search_of key) two_segments" by blast
  from key have k: "key = ''secret''" by (simp add: API_KEY_def sample_env_def)
  have "\<forall>seg \<in> set two_segments. files ?d (asset_path seg) \<noteq> None"
    by (simp add: two_segments_def disk_with_def asset_path_def ASSETS_def)
  from run_cached [OF this, of ?e] log have "filter stream new = []" by simp
  then have "filter (\<lambda>r. \<not> stream r) new = new" by (simp add: filter_empty_conv filter_id_conv)
  with new k have "new = [search_request ''secret'' ''sunrise timelapse'',
                          search_request ''secret'' ''diverse friends smiling'']"
    by (simp add: two_segments_def search_of_def)
  with log have "requests_log (fst (run ?e two_segments ?d)) =
      [search_request ''secret'' ''sunrise timelapse'', search_request ''secret'' ''diverse friends smiling'']"
    by (simp add: disk_with_def)
  with r have 2: "\<exists>st' v. run ?e two_segments ?d = (st', Inr v) \<and>
      requests_log st' = [search_request ''secret'' ''sunrise timelapse'',
                          search_request ''secret'' ''diverse friends smiling'']"
    by blast
  from 1 2 show ?thesis ..
qed

end
